theory Spec2Isabelle
  imports Main "HOL-Library.Multiset" "HOL-Library.Product_Lexorder"
begin

section \<open>Python values\<close>

text \<open>
  A raw replay record is what \<^verbatim>\<open>json\<close> decoding hands to the analyzer: nested
  dictionaries, lists, strings, integers, booleans and \<^verbatim>\<open>None\<close>. A dictionary is the
  list of its items in insertion order, each key listed once; a lookup takes the first
  binding of the key. A \<^typ>\<open>char\<close> stands for one character of a Python string.
  JSON numbers are integers here: the analyzer does no arithmetic on them.
\<close>

datatype pyval =
    PNone
  | PBool bool
  | PInt int
  | PStr string
  | PList "pyval list"
  | PDict "(string \<times> pyval) list"

type_synonym pydict = "(string \<times> pyval) list"

text \<open>The exceptions the analyzer can raise on the values above.\<close>

datatype py_error = TypeError | KeyError | IndexError | AttributeError

text \<open>\<^verbatim>\<open>d.get(k, default)\<close> on a dictionary.\<close>

definition dict_get :: "pydict \<Rightarrow> string \<Rightarrow> pyval \<Rightarrow> pyval" where
  "dict_get d k dflt = (case map_of d k of None \<Rightarrow> dflt | Some v \<Rightarrow> v)"

text \<open>
  \<^verbatim>\<open>x.get(k, default)\<close> on any value: only a dictionary has the method, every other
  value raises \<^verbatim>\<open>AttributeError\<close>.
\<close>

fun py_get :: "pyval \<Rightarrow> string \<Rightarrow> pyval \<Rightarrow> py_error + pyval" where
  "py_get (PDict d) k dflt = Inr (dict_get d k dflt)"
| "py_get _ k dflt = Inl AttributeError"

text \<open>The truth value of \<^verbatim>\<open>x\<close> in a condition.\<close>

fun truthy :: "pyval \<Rightarrow> bool" where
  "truthy PNone = False"
| "truthy (PBool b) = b"
| "truthy (PInt i) = (i \<noteq> 0)"
| "truthy (PStr s) = (s \<noteq> [])"
| "truthy (PList xs) = (xs \<noteq> [])"
| "truthy (PDict d) = (d \<noteq> [])"

text \<open>
  \<^verbatim>\<open>x[0]\<close>: the first element of a list, the first character of a string, the
  value under the key \<^verbatim>\<open>0\<close> of a dictionary (absent: the keys of a decoded record are
  strings); \<^verbatim>\<open>None\<close>, booleans and integers are not subscriptable.
\<close>

fun getitem0 :: "pyval \<Rightarrow> py_error + pyval" where
  "getitem0 (PList []) = Inl IndexError"
| "getitem0 (PList (x # xs)) = Inr x"
| "getitem0 (PStr []) = Inl IndexError"
| "getitem0 (PStr (c # cs)) = Inr (PStr [c])"
| "getitem0 (PDict d) = Inl KeyError"
| "getitem0 _ = Inl TypeError"

text \<open>
  The elements \<^verbatim>\<open>for x in v\<close> runs over: those of a list, the characters of a string,
  the keys of a dictionary; \<^verbatim>\<open>None\<close>, booleans and integers are not iterable.
\<close>

fun py_iter :: "pyval \<Rightarrow> py_error + pyval list" where
  "py_iter (PList xs) = Inr xs"
| "py_iter (PStr s) = Inr (map (\<lambda>c. PStr [c]) s)"
| "py_iter (PDict d) = Inr (map (\<lambda>kv. PStr (fst kv)) d)"
| "py_iter _ = Inl TypeError"


section \<open>The data model\<close>

record UserAction =
  timestamp :: int
  action_type :: string
  selector :: "string option"
  val :: "string option"
  target :: "string option"
  coordinates :: "(string \<times> int) list option"

record NetworkRequest =
  req_timestamp :: int
  req_method :: string
  req_url :: string
  status_code :: "int option"
  response_body :: "string option"
  request_body :: "string option"

text \<open>
  The dataclass \<^verbatim>\<open>ReplaySession\<close> does not check its annotations when it is
  constructed: \<^verbatim>\<open>analyze_replay\<close> stores whatever the raw record holds under
  \<^verbatim>\<open>id\<close>, \<^verbatim>\<open>duration\<close>, \<^verbatim>\<open>urls\<close> and \<^verbatim>\<open>errors\<close>. The record leaves the types of these
  four fields open. \<open>raw_session\<close> is what the normalizer builds; \<open>session\<close> has the
  fields at their annotated types (\<^verbatim>\<open>str\<close>, \<^verbatim>\<open>int\<close>, \<^verbatim>\<open>str\<close>,
  \<^verbatim>\<open>List[Dict[str, Any]]\<close>), and is what selection, coverage and rendering read.
\<close>

record ('i, 'd, 'u, 'e) ReplaySession =
  replay_id :: 'i
  duration :: 'd
  url :: 'u
  actions :: "UserAction list"
  network_requests :: "NetworkRequest list"
  errors :: 'e
  metadata :: pydict

type_synonym raw_session = "(pyval, pyval, pyval, pyval) ReplaySession"

type_synonym session = "(string, int, string, pyval list) ReplaySession"

text \<open>The analyzer object: its only attribute is the list of sessions seen so far.\<close>

record 's ReplayAnalyzer =
  sessions :: "'s list"


section \<open>The normalizer\<close>

definition fallback_url :: pyval where
  "fallback_url = PStr ''https://example.com''"

text \<open>
  The loop over \<^verbatim>\<open>replay_data['tags']\<close>: \<open>Inr (Some v)\<close> when an iteration returns
  \<open>v\<close>, \<open>Inr None\<close> when the loop runs to its end.
\<close>

fun tags_loop :: "pyval list \<Rightarrow> py_error + pyval option" where
  "tags_loop [] = Inr None"
| "tags_loop (tag # tags) =
     (case py_get tag ''key'' PNone of
        Inl e \<Rightarrow> Inl e
      | Inr k \<Rightarrow>
          if k = PStr ''url''
          then (case py_get tag ''value'' (PStr []) of
                  Inl e \<Rightarrow> Inl e
                | Inr v \<Rightarrow> Inr (Some v))
          else tags_loop tags)"

text \<open>The third \<^verbatim>\<open>if\<close> of \<^verbatim>\<open>_extract_url\<close> and the fallback after it.\<close>

definition url_from_tags :: "pydict \<Rightarrow> py_error + pyval" where
  "url_from_tags replay_data =
     (case map_of replay_data ''tags'' of
        None \<Rightarrow> Inr fallback_url
      | Some tags \<Rightarrow>
          (case py_iter tags of
             Inl e \<Rightarrow> Inl e
           | Inr ts \<Rightarrow>
               (case tags_loop ts of
                  Inl e \<Rightarrow> Inl e
                | Inr (Some v) \<Rightarrow> Inr v
                | Inr None \<Rightarrow> Inr fallback_url)))"

text \<open>The second \<^verbatim>\<open>if\<close> of \<^verbatim>\<open>_extract_url\<close> and what follows it.\<close>

definition url_from_url :: "pydict \<Rightarrow> py_error + pyval" where
  "url_from_url replay_data =
     (case map_of replay_data ''url'' of
        Some v \<Rightarrow> Inr v
      | None \<Rightarrow> url_from_tags replay_data)"

definition extract_url :: "pydict \<Rightarrow> py_error + pyval" where
  "extract_url replay_data =
     (case map_of replay_data ''urls'' of
        Some urls \<Rightarrow> if truthy urls then getitem0 urls else url_from_url replay_data
      | None \<Rightarrow> url_from_url replay_data)"

definition extract_actions :: "pydict \<Rightarrow> UserAction list" where
  "extract_actions replay_data = []"

definition extract_network_requests :: "pydict \<Rightarrow> NetworkRequest list" where
  "extract_network_requests replay_data = []"

definition extract_errors :: "pydict \<Rightarrow> py_error + pyval" where
  "extract_errors replay_data =
     (case map_of replay_data ''errors'' of
        Some errs \<Rightarrow> Inr errs
      | None \<Rightarrow>
          (case map_of replay_data ''error_ids'' of
             Some ids \<Rightarrow>
               (case py_iter ids of
                  Inl e \<Rightarrow> Inl e
                | Inr eids \<Rightarrow> Inr (PList (map (\<lambda>eid. PDict [(''id'', eid)]) eids)))
           | None \<Rightarrow> Inr (PList [])))"

definition build_metadata :: "pydict \<Rightarrow> pydict" where
  "build_metadata replay_data =
     [(''user'', dict_get replay_data ''user'' (PDict [])),
      (''browser'', dict_get replay_data ''browser'' (PDict [])),
      (''os'', dict_get replay_data ''os'' (PDict [])),
      (''device'', dict_get replay_data ''device'' (PDict [])),
      (''started_at'', dict_get replay_data ''started_at'' PNone),
      (''finished_at'', dict_get replay_data ''finished_at'' PNone),
      (''error_count'', dict_get replay_data ''error_count'' (PInt 0)),
      (''project_id'', dict_get replay_data ''project_id'' PNone)]"

text \<open>
  \<^verbatim>\<open>analyze_replay\<close> returns the session and the analyzer with the session appended
  to its list, or the exception raised on the way (the list is then as it was).
\<close>

definition analyze_replay ::
  "pydict \<Rightarrow> raw_session ReplayAnalyzer \<Rightarrow> py_error + (raw_session \<times> raw_session ReplayAnalyzer)"
where
  "analyze_replay replay_data self =
     (case extract_url replay_data of
        Inl e \<Rightarrow> Inl e
      | Inr u \<Rightarrow>
          (case extract_errors replay_data of
             Inl e \<Rightarrow> Inl e
           | Inr errs \<Rightarrow>
               (let session =
                  \<lparr> replay_id = dict_get replay_data ''id'' (PStr ''unknown''),
                    duration = dict_get replay_data ''duration'' (PInt 0),
                    url = u,
                    actions = extract_actions replay_data,
                    network_requests = extract_network_requests replay_data,
                    errors = errs,
                    metadata = build_metadata replay_data \<rparr>
                in Inr (session, self\<lparr>sessions := sessions self @ [session]\<rparr>))))"


text \<open>
  The session \<^verbatim>\<open>analyze_replay\<close> returns. It does not depend on the analyzer the
  method is called on (\<open>analyze_replay_normalize_raw\<close> below).
\<close>

definition normalize_raw :: "pydict \<Rightarrow> py_error + raw_session" where
  "normalize_raw replay_data = map_sum id fst (analyze_replay replay_data \<lparr>sessions = []\<rparr>)"

text \<open>The raw record of \<^verbatim>\<open>main\<close>.\<close>

definition sample_replay :: pydict where
  "sample_replay =
     [(''id'', PStr ''abc123def456''),
      (''duration'', PInt 45000),
      (''url'', PStr ''https://example.com/app''),
      (''user'', PDict [(''email'', PStr ''user@example.com'')]),
      (''browser'', PDict [(''name'', PStr ''Chrome''), (''version'', PStr ''120.0'')]),
      (''os'', PDict [(''name'', PStr ''macOS''), (''version'', PStr ''14.0'')]),
      (''error_count'', PInt 2),
      (''errors'',
         PList [PDict [(''message'', PStr ''TypeError: Cannot read property X'')],
                PDict [(''message'', PStr ''NetworkError: Failed to fetch'')]])]"

text \<open>Shapes of raw values, for the statements below.\<close>

fun is_list :: "pyval \<Rightarrow> bool" where
  "is_list (PList xs) = True"
| "is_list _ = False"

fun is_dict :: "pyval \<Rightarrow> bool" where
  "is_dict (PDict d) = True"
| "is_dict _ = False"

text \<open>A tags entry whose \<^verbatim>\<open>key\<close> is \<^verbatim>\<open>"url"\<close>.\<close>

fun is_url_tag :: "pyval \<Rightarrow> bool" where
  "is_url_tag (PDict d) = (map_of d ''key'' = Some (PStr ''url''))"
| "is_url_tag _ = False"

text \<open>The \<^verbatim>\<open>urls\<close> field is absent, or holds a value that counts as false.\<close>

definition no_urls :: "pydict \<Rightarrow> bool" where
  "no_urls replay_data =
     (case map_of replay_data ''urls'' of None \<Rightarrow> True | Some urls \<Rightarrow> \<not> truthy urls)"


text \<open>
  The shape the normalizer relies on: \<^verbatim>\<open>urls\<close>, where present, is a list;
  \<^verbatim>\<open>tags\<close>, where present, is a list of mappings; \<^verbatim>\<open>error_ids\<close>, where present,
  is a list. Any field may be missing, and the other fields may hold anything.
\<close>

definition urls_ok :: "pydict \<Rightarrow> bool" where
  "urls_ok replay_data =
     (case map_of replay_data ''urls'' of None \<Rightarrow> True | Some urls \<Rightarrow> is_list urls)"

definition tags_ok :: "pydict \<Rightarrow> bool" where
  "tags_ok replay_data =
     (case map_of replay_data ''tags'' of
        None \<Rightarrow> True
      | Some (PList ts) \<Rightarrow> list_all is_dict ts
      | Some _ \<Rightarrow> False)"

definition error_ids_ok :: "pydict \<Rightarrow> bool" where
  "error_ids_ok replay_data =
     (case map_of replay_data ''error_ids'' of None \<Rightarrow> True | Some ids \<Rightarrow> is_list ids)"

definition record_shape :: "pydict \<Rightarrow> bool" where
  "record_shape replay_data =
     (urls_ok replay_data \<and> tags_ok replay_data \<and> error_ids_ok replay_data)"

text \<open>Raw records used as concrete inputs below.\<close>

definition urls_and_url :: pydict where
  "urls_and_url = [(''urls'', PList [PStr ''A'']), (''url'', PStr ''B'')]"

definition url_and_tag :: pydict where
  "url_and_tag =
     [(''url'', PStr ''B''),
      (''tags'', PList [PDict [(''key'', PStr ''url''), (''value'', PStr ''C'')]])]"

definition tag_only :: pydict where
  "tag_only =
     [(''urls'', PList []),
      (''tags'',
         PList [PDict [(''key'', PStr ''env''), (''value'', PStr ''prod'')],
                PDict [(''key'', PStr ''url''), (''value'', PStr ''C'')]]),
      (''error_ids'', PList [PStr ''e1'', PStr ''e2''])]"

definition tag_without_value :: pydict where
  "tag_without_value = [(''tags'', PList [PDict [(''key'', PStr ''url'')]])]"

definition two_url_tags :: pydict where
  "two_url_tags =
     [(''tags'',
         PList [PDict [(''key'', PStr ''url''), (''value'', PStr ''X'')],
                PDict [(''key'', PStr ''url'')]])]"

definition tag_after_string :: pydict where
  "tag_after_string = [(''tags'', PList [PStr ''x'', PDict [(''key'', PStr ''url'')]])]"

definition urls_number :: pydict where
  "urls_number = [(''urls'', PInt 5)]"


section \<open>The selector\<close>

text \<open>
  \<^verbatim>\<open>list.sort(key=..., reverse=True)\<close>: the list is reversed, sorted in ascending
  order of the key by a stable sort, and reversed again, so that elements with equal
  keys keep their order.
\<close>

definition py_sort_reverse :: "('a \<Rightarrow> 'k::linorder) \<Rightarrow> 'a list \<Rightarrow> 'a list" where
  "py_sort_reverse key xs = rev (sort_key key (rev xs))"

text \<open>
  The slice \<^verbatim>\<open>xs[:stop]\<close>: the first \<open>stop\<close> elements, and for a negative \<open>stop\<close>
  all but the last \<open>- stop\<close>.
\<close>

definition py_slice_to :: "int \<Rightarrow> 'a list \<Rightarrow> 'a list" where
  "py_slice_to stop xs =
     (if 0 \<le> stop then take (nat stop) xs else take (length xs - nat (- stop)) xs)"

text \<open>
  The sort keys are the tuple \<^verbatim>\<open>(len(s.errors), s.duration)\<close>, compared
  lexicographically as Python compares tuples, and \<^verbatim>\<open>s.duration\<close>.
\<close>

definition select_sessions_for_testing ::
  "('i, int, 'u, 'e list) ReplaySession ReplayAnalyzer \<Rightarrow> int \<Rightarrow> bool \<Rightarrow> int
   \<Rightarrow> ('i, int, 'u, 'e list) ReplaySession list"
where
  "select_sessions_for_testing self max_sessions prioritize_errors min_duration =
     (let candidates = filter (\<lambda>s. duration s \<ge> min_duration) (sessions self);
          candidates =
            (if prioritize_errors
             then py_sort_reverse (\<lambda>s. (length (errors s), duration s)) candidates
             else py_sort_reverse (\<lambda>s. duration s) candidates)
      in py_slice_to max_sessions candidates)"

text \<open>Sessions used as concrete inputs below.\<close>

definition mk_session :: "string \<Rightarrow> int \<Rightarrow> nat \<Rightarrow> session" where
  "mk_session rid d n =
     \<lparr> replay_id = rid, duration = d, url = ''https://example.com'', actions = [],
       network_requests = [], errors = replicate n (PDict []), metadata = [] \<rparr>"

definition five_sessions :: "session ReplayAnalyzer" where
  "five_sessions = \<lparr> sessions =
     [mk_session ''a'' 500 0, mk_session ''b'' 2000 2, mk_session ''c'' 1500 2,
      mk_session ''d'' 2000 2, mk_session ''e'' 3000 0] \<rparr>"


section \<open>The script synthesizer\<close>

text \<open>\<^verbatim>\<open>str(n)\<close> for an integer, as an f-string formats it: decimal digits, with a sign.\<close>

definition digit_char :: "nat \<Rightarrow> char" where
  "digit_char d = ''0123456789'' ! d"

function str_nat :: "nat \<Rightarrow> string" where
  "str_nat n = (if n < 10 then [digit_char n] else str_nat (n div 10) @ [digit_char (n mod 10)])"
  by pat_completeness auto
termination
  by (relation "measure id") auto

declare str_nat.simps [simp del]

definition str_int :: "int \<Rightarrow> string" where
  "str_int i = (if i < 0 then ''-'' @ str_nat (nat (- i)) else str_nat (nat i))"

text \<open>
  An optional string in a condition (\<^verbatim>\<open>None\<close> and \<^verbatim>\<open>''\<close> count as false) and in an
  f-string (\<^verbatim>\<open>None\<close> is formatted as its name).
\<close>

fun str_truthy :: "string option \<Rightarrow> bool" where
  "str_truthy None = False"
| "str_truthy (Some s) = (s \<noteq> [])"

fun str_format :: "string option \<Rightarrow> string" where
  "str_format None = ''None''"
| "str_format (Some s) = s"

text \<open>\<^verbatim>\<open>sep.join(xs)\<close>.\<close>

fun py_join :: "string \<Rightarrow> string list \<Rightarrow> string" where
  "py_join sep [] = []"
| "py_join sep [x] = x"
| "py_join sep (x # y # ys) = x @ sep @ py_join sep (y # ys)"

text \<open>The statements of the script, as the f-strings of \<^verbatim>\<open>to_test_script\<close> build them.\<close>

definition click_stmt :: "string \<Rightarrow> string" where
  "click_stmt sel = ''  await page.click('' @ [CHR 0x27] @ sel @ ''');''"

definition fill_stmt :: "string \<Rightarrow> string \<Rightarrow> string" where
  "fill_stmt sel v =
     ''  await page.fill('' @ [CHR 0x27] @ sel @ ''', '' @ [CHR 0x27] @ v @ ''');''"

definition goto_stmt :: "string \<Rightarrow> string" where
  "goto_stmt t = ''  await page.goto('' @ [CHR 0x27] @ t @ ''');''"

definition wait_stmt :: string where
  "wait_stmt = ''  await page.waitForTimeout(100);''"

definition screenshot_stmt :: "string \<Rightarrow> string" where
  "screenshot_stmt rid =
     ''  await page.screenshot({ path: 'screenshots/replay-'' @ take 8 rid @ ''.png' });''"

text \<open>One iteration of the loop over \<^verbatim>\<open>self.actions\<close>, appending to \<^verbatim>\<open>script_lines\<close>.\<close>

definition render_action :: "UserAction \<Rightarrow> string list \<Rightarrow> string list" where
  "render_action action script_lines =
     (let script_lines =
            (if action_type action = ''click'' \<and> str_truthy (selector action)
             then script_lines @ [click_stmt (str_format (selector action))]
             else if action_type action = ''input'' \<and> str_truthy (selector action)
                     \<and> str_truthy (val action)
             then script_lines
                    @ [fill_stmt (str_format (selector action)) (str_format (val action))]
             else if action_type action = ''navigation'' \<and> str_truthy (target action)
             then script_lines @ [goto_stmt (str_format (target action))]
             else script_lines);
          script_lines = script_lines @ [wait_stmt];
          script_lines = script_lines @ ['''']
      in script_lines)"

fun render_actions :: "UserAction list \<Rightarrow> string list \<Rightarrow> string list" where
  "render_actions [] script_lines = script_lines"
| "render_actions (action # rest) script_lines =
     render_actions rest (render_action action script_lines)"

text \<open>The list literal \<^verbatim>\<open>script_lines\<close> starts as.\<close>

definition initial_lines :: "(string, int, string, 'e) ReplaySession \<Rightarrow> string list" where
  "initial_lines self =
     [''import { test, expect } from '@playwright/test';'',
      '''',
      ''test('replay-'' @ take 8 (replay_id self) @ ''', async ({ page }) => {'',
      ''  // Original session duration: '' @ str_int (duration self) @ ''ms'',
      ''  // URL: '' @ url self,
      '''',
      goto_stmt (url self),
      '''']"

text \<open>The list \<^verbatim>\<open>script_lines\<close> when \<^verbatim>\<open>to_test_script\<close> joins it.\<close>

definition script_lines_of :: "(string, int, string, 'e) ReplaySession \<Rightarrow> string list" where
  "script_lines_of self =
     (let script_lines = initial_lines self;
          script_lines = render_actions (actions self) script_lines;
          script_lines = script_lines @ [''  // Take final screenshot for comparison''];
          script_lines = script_lines @ [screenshot_stmt (replay_id self)];
          script_lines = script_lines @ [''});'']
      in script_lines)"

definition to_test_script :: "(string, int, string, 'e) ReplaySession \<Rightarrow> string" where
  "to_test_script self = py_join ''\<newline>'' (script_lines_of self)"

text \<open>
  The lines of a text, as \<^verbatim>\<open>text.split("\n")\<close> gives them: the statements a reader of
  the script finds in the string \<^verbatim>\<open>to_test_script\<close> returns.
\<close>

fun split_from :: "string \<Rightarrow> string \<Rightarrow> string list" where
  "split_from line [] = [line]"
| "split_from line (c # cs) =
     (if c = CHR 0x0A then line # split_from [] cs else split_from (line @ [c]) cs)"

definition split_lines :: "string \<Rightarrow> string list" where
  "split_lines text = split_from [] text"

definition single_line :: "string \<Rightarrow> bool" where
  "single_line x = (CHR 0x0A \<notin> set x)"

text \<open>No text that an f-string of \<^verbatim>\<open>to_test_script\<close> formats holds a line break.\<close>

definition no_line_breaks :: "(string, int, string, 'e) ReplaySession \<Rightarrow> bool" where
  "no_line_breaks self =
     (single_line (take 8 (replay_id self)) \<and> single_line (url self)
      \<and> list_all (\<lambda>action. single_line (str_format (selector action))
                    \<and> single_line (str_format (val action))
                    \<and> single_line (str_format (target action)))
           (actions self))"

text \<open>Actions and sessions used as concrete inputs below.\<close>

definition mk_action ::
  "string \<Rightarrow> string option \<Rightarrow> string option \<Rightarrow> string option \<Rightarrow> UserAction" where
  "mk_action ty sel v tgt =
     \<lparr> timestamp = 0, action_type = ty, selector = sel, val = v, target = tgt,
       coordinates = None \<rparr>"

definition null_click_session :: session where
  "null_click_session =
     \<lparr> replay_id = ''abc123def456'', duration = 45000, url = ''https://example.com/app'',
       actions = [mk_action ''click'' None None None],
       network_requests = [], errors = [], metadata = [] \<rparr>"

definition four_action_session :: session where
  "four_action_session =
     \<lparr> replay_id = ''abc123def456'', duration = 45000, url = ''https://example.com/app'',
       actions =
         [mk_action ''click'' (Some ''#go'') None None,
          mk_action ''input'' (Some ''#q'') (Some ''x'') None,
          mk_action ''navigation'' None None (Some ''/next''),
          mk_action ''scroll'' (Some ''#go'') None None],
       network_requests = [], errors = [], metadata = [] \<rparr>"


definition line_break_session :: session where
  "line_break_session =
     \<lparr> replay_id = ''abc123def456'', duration = 45000,
       url = ''https://example.com/\<newline>  await page.click('#a');\<newline>  await page.waitForTimeout(100);\<newline>//'',
       actions = [mk_action ''click'' None None None],
       network_requests = [], errors = [], metadata = [] \<rparr>"

section \<open>The coverage aggregator\<close>

text \<open>
  The values a \<^verbatim>\<open>set\<close>, a \<^verbatim>\<open>dict\<close> or a \<^verbatim>\<open>Counter\<close> accepts as elements or keys,
  and the equality they are told apart by: \<^verbatim>\<open>True == 1\<close> and \<^verbatim>\<open>False == 0\<close>.
\<close>

fun hashable :: "pyval \<Rightarrow> bool" where
  "hashable (PList xs) = False"
| "hashable (PDict d) = False"
| "hashable _ = True"

fun key_eq :: "pyval \<Rightarrow> pyval \<Rightarrow> bool" where
  "key_eq (PBool b) (PInt i) = (i = (if b then 1 else 0))"
| "key_eq (PInt i) (PBool b) = (i = (if b then 1 else 0))"
| "key_eq x y = (x = y)"

text \<open>
  \<^verbatim>\<open>dict(Counter(xs))\<close>: the items in order of first occurrence, each with the number
  of elements of \<open>xs\<close> equal to its key.
\<close>

fun counter_add :: "('k \<Rightarrow> 'k \<Rightarrow> bool) \<Rightarrow> 'k \<Rightarrow> ('k \<times> nat) list \<Rightarrow> ('k \<times> nat) list" where
  "counter_add eq k [] = [(k, 1)]"
| "counter_add eq k ((k', n) # c) =
     (if eq k' k then (k', Suc n) # c else (k', n) # counter_add eq k c)"

definition Counter :: "('k \<Rightarrow> 'k \<Rightarrow> bool) \<Rightarrow> 'k list \<Rightarrow> ('k \<times> nat) list" where
  "Counter eq xs = foldl (\<lambda>c k. counter_add eq k c) [] xs"

record coverage =
  total_sessions :: nat
  unique_urls :: nat
  unique_selectors :: nat
  url_distribution :: "(string \<times> nat) list"
  browser_distribution :: "(pyval \<times> nat) list"
  total_actions :: nat
  total_errors :: nat

text \<open>\<^verbatim>\<open>session.metadata.get('browser', {}).get('name')\<close>.\<close>

definition browser_name :: "pydict \<Rightarrow> py_error + pyval" where
  "browser_name md = py_get (dict_get md ''browser'' (PDict [])) ''name'' PNone"

text \<open>The loop over \<^verbatim>\<open>session.actions\<close>, appending to \<^verbatim>\<open>all_selectors\<close>.\<close>

fun selectors_loop :: "UserAction list \<Rightarrow> string list \<Rightarrow> string list" where
  "selectors_loop [] all_selectors = all_selectors"
| "selectors_loop (action # rest) all_selectors =
     selectors_loop rest
       (case selector action of
          Some sel \<Rightarrow> if sel \<noteq> [] then all_selectors @ [sel] else all_selectors
        | None \<Rightarrow> all_selectors)"

text \<open>
  The loop over \<^verbatim>\<open>self.sessions\<close>, on the three lists \<^verbatim>\<open>all_urls\<close>,
  \<^verbatim>\<open>all_selectors\<close> and \<^verbatim>\<open>all_browsers\<close>.
\<close>

fun coverage_loop ::
  "('i, 'd, string, 'e) ReplaySession list \<Rightarrow> string list \<times> string list \<times> pyval list
   \<Rightarrow> py_error + (string list \<times> string list \<times> pyval list)"
where
  "coverage_loop [] acc = Inr acc"
| "coverage_loop (session # rest) (all_urls, all_selectors, all_browsers) =
     (case browser_name (metadata session) of
        Inl e \<Rightarrow> Inl e
      | Inr b \<Rightarrow>
          coverage_loop rest
            (all_urls @ [url session],
             selectors_loop (actions session) all_selectors,
             all_browsers @ [b]))"

definition analyze_coverage ::
  "('i, 'd, string, 'e list) ReplaySession ReplayAnalyzer \<Rightarrow> py_error + coverage"
where
  "analyze_coverage self =
     (case coverage_loop (sessions self) ([], [], []) of
        Inl e \<Rightarrow> Inl e
      | Inr (all_urls, all_selectors, all_browsers) \<Rightarrow>
          if list_all hashable all_browsers
          then Inr \<lparr> total_sessions = length (sessions self),
                     unique_urls = card (set all_urls),
                     unique_selectors = card (set all_selectors),
                     url_distribution = Counter (=) all_urls,
                     browser_distribution = Counter key_eq all_browsers,
                     total_actions = sum_list (map (\<lambda>s. length (actions s)) (sessions self)),
                     total_errors = sum_list (map (\<lambda>s. length (errors s)) (sessions self)) \<rparr>
          else Inl TypeError)"

text \<open>A browser name that is a string or \<^verbatim>\<open>None\<close>.\<close>

fun name_ok :: "pyval \<Rightarrow> bool" where
  "name_ok PNone = True"
| "name_ok (PStr s) = True"
| "name_ok _ = False"

text \<open>Sessions used as concrete inputs below.\<close>

definition cov_session :: "string \<Rightarrow> string list \<Rightarrow> pydict \<Rightarrow> session" where
  "cov_session u sels md =
     \<lparr> replay_id = ''r'', duration = 0, url = u,
       actions = map (\<lambda>sel. mk_action ''click'' (Some sel) None None) sels,
       network_requests = [], errors = [], metadata = md \<rparr>"

definition three_sessions :: "session ReplayAnalyzer" where
  "three_sessions = \<lparr> sessions =
     [cov_session ''X'' [''a''] [(''browser'', PDict [(''name'', PStr ''Chrome'')])],
      cov_session ''X'' [''a'', ''b''] [(''browser'', PDict [])],
      cov_session ''Y'' [] []] \<rparr>"

definition empty_selector_session :: "session ReplayAnalyzer" where
  "empty_selector_session = \<lparr> sessions = [cov_session ''X'' [''''] []] \<rparr>"

definition null_browser_session :: "session ReplayAnalyzer" where
  "null_browser_session = \<lparr> sessions = [cov_session ''X'' [] [(''browser'', PNone)]] \<rparr>"


section \<open>The object store\<close>

text \<open>
  Python lists and dataclass instances are mutable objects, held by reference. To state
  what a method leaves unchanged, the methods are also run on a store of objects: a
  session, a list of references to sessions (\<^verbatim>\<open>self.sessions\<close>, \<^verbatim>\<open>candidates\<close>), or a
  list of strings (\<^verbatim>\<open>script_lines\<close>). A list literal, a comprehension and a slice
  allocate a new list; \<^verbatim>\<open>sort\<close> and \<^verbatim>\<open>append\<close> change the list they are called on.
  \<open>None\<close> stands for a reference that does not hold the kind of object the code expects.
\<close>

type_synonym addr = nat

datatype 's obj = Session 's | SessionList "addr list" | StrList "string list"

record 's store =
  cells :: "addr \<Rightarrow> 's obj option"
  fresh :: addr

text \<open>Every address from \<open>fresh\<close> on is unallocated.\<close>

definition valid_store :: "'s store \<Rightarrow> bool" where
  "valid_store \<sigma> = (\<forall>a. fresh \<sigma> \<le> a \<longrightarrow> cells \<sigma> a = None)"

definition new_obj :: "'s obj \<Rightarrow> 's store \<Rightarrow> addr \<times> 's store" where
  "new_obj ob \<sigma> =
     (fresh \<sigma>, \<sigma>\<lparr>cells := (cells \<sigma>)(fresh \<sigma> \<mapsto> ob), fresh := Suc (fresh \<sigma>)\<rparr>)"

definition put_obj :: "addr \<Rightarrow> 's obj \<Rightarrow> 's store \<Rightarrow> 's store" where
  "put_obj a ob \<sigma> = \<sigma>\<lparr>cells := (cells \<sigma>)(a \<mapsto> ob)\<rparr>"

definition get_session :: "'s store \<Rightarrow> addr \<Rightarrow> 's option" where
  "get_session \<sigma> a = (case cells \<sigma> a of Some (Session s) \<Rightarrow> Some s | _ \<Rightarrow> None)"

definition get_list :: "'s store \<Rightarrow> addr \<Rightarrow> addr list option" where
  "get_list \<sigma> a = (case cells \<sigma> a of Some (SessionList rs) \<Rightarrow> Some rs | _ \<Rightarrow> None)"

definition get_lines :: "'s store \<Rightarrow> addr \<Rightarrow> string list option" where
  "get_lines \<sigma> a = (case cells \<sigma> a of Some (StrList ls) \<Rightarrow> Some ls | _ \<Rightarrow> None)"

text \<open>The sessions a list of references points to, each paired with its reference.\<close>

definition deref_all :: "'s store \<Rightarrow> addr list \<Rightarrow> (addr \<times> 's) list option" where
  "deref_all \<sigma> refs = map_option (zip refs) (those (map (get_session \<sigma>) refs))"

subsection \<open>Selection on the store\<close>

text \<open>
  \<^verbatim>\<open>select_sessions_for_testing\<close>, with \<^verbatim>\<open>self.sessions\<close> the list object at
  \<open>self_sessions\<close>: the comprehension allocates \<^verbatim>\<open>candidates\<close>, \<^verbatim>\<open>sort\<close> reorders that
  list in place (the keys are read from the sessions the references point to), the
  slice allocates the list that is returned.
\<close>

definition select_in_store ::
  "addr \<Rightarrow> int \<Rightarrow> bool \<Rightarrow> int \<Rightarrow> ('i, int, 'u, 'e list) ReplaySession store
   \<Rightarrow> (addr \<times> ('i, int, 'u, 'e list) ReplaySession store) option"
where
  "select_in_store self_sessions max_sessions prioritize_errors min_duration \<sigma> =
     Option.bind (get_list \<sigma> self_sessions) (\<lambda>refs.
     Option.bind (deref_all \<sigma> refs) (\<lambda>objs.
       let (candidates, \<sigma>) =
             new_obj (SessionList (map fst (filter (\<lambda>rs. duration (snd rs) \<ge> min_duration) objs))) \<sigma>
       in
     Option.bind (get_list \<sigma> candidates) (\<lambda>refs.
     Option.bind (deref_all \<sigma> refs) (\<lambda>objs.
       let ranked =
             (if prioritize_errors
              then py_sort_reverse (\<lambda>rs. (length (errors (snd rs)), duration (snd rs))) objs
              else py_sort_reverse (\<lambda>rs. duration (snd rs)) objs);
           \<sigma> = put_obj candidates (SessionList (map fst ranked)) \<sigma>
       in
     Option.bind (get_list \<sigma> candidates) (\<lambda>refs.
       Some (new_obj (SessionList (py_slice_to max_sessions refs)) \<sigma>))))))"

subsection \<open>Rendering on the store\<close>

text \<open>One iteration of the loop, on the list object \<^verbatim>\<open>script_lines\<close> refers to.\<close>

fun render_actions_in_store ::
  "UserAction list \<Rightarrow> addr \<Rightarrow> 's store \<Rightarrow> 's store option"
where
  "render_actions_in_store [] script_lines \<sigma> = Some \<sigma>"
| "render_actions_in_store (action # rest) script_lines \<sigma> =
     Option.bind (get_lines \<sigma> script_lines) (\<lambda>ls.
       render_actions_in_store rest script_lines
         (put_obj script_lines (StrList (render_action action ls)) \<sigma>))"

text \<open>\<^verbatim>\<open>script_lines.append(line)\<close>.\<close>

definition append_in_store :: "addr \<Rightarrow> string \<Rightarrow> 's store \<Rightarrow> 's store option" where
  "append_in_store script_lines line \<sigma> =
     map_option (\<lambda>ls. put_obj script_lines (StrList (ls @ [line])) \<sigma>)
       (get_lines \<sigma> script_lines)"

text \<open>
  \<^verbatim>\<open>to_test_script\<close>, with \<^verbatim>\<open>self\<close> the session object at \<open>self\<close>: the list literal
  allocates \<^verbatim>\<open>script_lines\<close>, every \<^verbatim>\<open>append\<close> changes that list, and the attributes
  of \<^verbatim>\<open>self\<close> are read from the store where the code reads them.
\<close>

definition to_test_script_in_store ::
  "addr \<Rightarrow> (string, int, string, 'e) ReplaySession store
   \<Rightarrow> (string \<times> (string, int, string, 'e) ReplaySession store) option"
where
  "to_test_script_in_store self \<sigma> =
     Option.bind (get_session \<sigma> self) (\<lambda>s.
       let (script_lines, \<sigma>) = new_obj (StrList (initial_lines s)) \<sigma> in
     Option.bind (get_session \<sigma> self) (\<lambda>s.
     Option.bind (render_actions_in_store (actions s) script_lines \<sigma>) (\<lambda>\<sigma>.
     Option.bind
       (append_in_store script_lines ''  // Take final screenshot for comparison'' \<sigma>) (\<lambda>\<sigma>.
     Option.bind (get_session \<sigma> self) (\<lambda>s.
     Option.bind (append_in_store script_lines (screenshot_stmt (replay_id s)) \<sigma>) (\<lambda>\<sigma>.
     Option.bind (append_in_store script_lines ''});'' \<sigma>) (\<lambda>\<sigma>.
     Option.bind (get_lines \<sigma> script_lines) (\<lambda>ls.
       Some (py_join ''\<newline>'' ls, \<sigma>)))))))))"

text \<open>Stores used as concrete inputs below.\<close>

definition store_of :: "'s obj list \<Rightarrow> 's store" where
  "store_of obs = \<lparr> cells = (\<lambda>a. if a < length obs then Some (obs ! a) else None),
                    fresh = length obs \<rparr>"

definition five_store :: "session store" where
  "five_store =
     store_of [Session (mk_session ''a'' 500 0), Session (mk_session ''b'' 2000 2),
               Session (mk_session ''c'' 1500 2), Session (mk_session ''d'' 2000 2),
               Session (mk_session ''e'' 3000 0), SessionList [0, 1, 2, 3, 4]]"

definition render_store :: "session store" where
  "render_store = store_of [Session null_click_session, Session null_click_session]"


section \<open>Properties of the normalizer\<close>

text \<open>
  C6. Normalizing the empty mapping gives the session with \<^verbatim>\<open>replay_id\<close>
  \<^verbatim>\<open>"unknown"\<close>, \<^verbatim>\<open>duration\<close> 0, \<^verbatim>\<open>url\<close> \<^verbatim>\<open>"https://example.com"\<close> and empty
  \<^verbatim>\<open>actions\<close>, \<^verbatim>\<open>network_requests\<close> and \<^verbatim>\<open>errors\<close>, and appends it to the
  analyzer's list.
\<close>

theorem analyze_replay_empty:
  "\<exists>s. analyze_replay [] self = Inr (s, self\<lparr>sessions := sessions self @ [s]\<rparr>)
      \<and> replay_id s = PStr ''unknown''
      \<and> duration s = PInt 0
      \<and> url s = PStr ''https://example.com''
      \<and> actions s = []
      \<and> network_requests s = []
      \<and> errors s = PList []"
  by (simp add: analyze_replay_def extract_url_def url_from_url_def url_from_tags_def
      fallback_url_def extract_errors_def extract_actions_def extract_network_requests_def
      dict_get_def Let_def)

lemma analyze_replay_normalize_raw:
  "analyze_replay replay_data self =
     (case normalize_raw replay_data of
        Inl e \<Rightarrow> Inl e
      | Inr s \<Rightarrow> Inr (s, self\<lparr>sessions := sessions self @ [s]\<rparr>))"
  by (simp add: normalize_raw_def analyze_replay_def Let_def split: sum.splits)

lemma normalize_raw_url:
  "normalize_raw replay_data = Inr s \<Longrightarrow> extract_url replay_data = Inr (url s)"
  by (auto simp: normalize_raw_def analyze_replay_def Let_def split: sum.splits)

lemma normalize_raw_returns:
  "extract_url replay_data = Inr u \<Longrightarrow> extract_errors replay_data = Inr errs \<Longrightarrow>
   \<exists>s. normalize_raw replay_data = Inr s \<and> url s = u \<and> errors s = errs"
  by (simp add: normalize_raw_def analyze_replay_def Let_def)

lemma tags_loop_first:
  "list_all is_dict (takeWhile (\<lambda>t. \<not> is_url_tag t) ts) \<Longrightarrow>
   find is_url_tag ts = Some (PDict e) \<Longrightarrow>
   tags_loop ts = Inr (Some (dict_get e ''value'' (PStr [])))"
proof (induction ts)
  case Nil
  then show ?case by simp
next
  case (Cons t ts)
  show ?case
  proof (cases "is_url_tag t")
    case True
    with Cons.prems show ?thesis by (cases t) (auto simp: dict_get_def)
  next
    case False
    with Cons.prems obtain d where t: "t = PDict d" by (cases t) auto
    with False Cons show ?thesis by (auto simp: dict_get_def split: option.splits)
  qed
qed

lemma list_all_takeWhile: "list_all P xs \<Longrightarrow> list_all P (takeWhile Q xs)"
  by (induction xs) auto

lemma tags_loop_found:
  "list_all is_dict ts \<Longrightarrow> find is_url_tag ts = Some (PDict e) \<Longrightarrow>
   tags_loop ts = Inr (Some (dict_get e ''value'' (PStr [])))"
  by (simp add: tags_loop_first list_all_takeWhile)

lemma tags_loop_none:
  "list_all is_dict ts \<Longrightarrow> find is_url_tag ts = None \<Longrightarrow> tags_loop ts = Inr None"
proof (induction ts)
  case Nil
  then show ?case by simp
next
  case (Cons t ts)
  then obtain d where t: "t = PDict d" by (cases t) auto
  with Cons show ?case by (auto simp: dict_get_def split: option.splits if_splits)
qed

lemma tags_loop_returns:
  "list_all is_dict ts \<Longrightarrow> \<exists>r. tags_loop ts = Inr r"
proof (cases "find is_url_tag ts")
  case None
  assume "list_all is_dict ts"
  with None show ?thesis by (simp add: tags_loop_none)
next
  case (Some t)
  assume ds: "list_all is_dict ts"
  from Some have "t \<in> set ts" by (auto simp: find_Some_iff)
  with ds obtain e where "t = PDict e" by (cases t) (auto simp: list_all_iff)
  with Some ds show ?thesis by (simp add: tags_loop_found)
qed

lemma extract_url_urls:
  "map_of replay_data ''urls'' = Some (PList (u # us)) \<Longrightarrow> extract_url replay_data = Inr u"
  by (simp add: extract_url_def)

lemma extract_url_no_urls:
  "no_urls replay_data \<Longrightarrow> extract_url replay_data = url_from_url replay_data"
  by (simp add: extract_url_def no_urls_def split: option.splits)

lemma extract_url_url:
  "no_urls replay_data \<Longrightarrow> map_of replay_data ''url'' = Some v \<Longrightarrow>
   extract_url replay_data = Inr v"
  by (simp add: extract_url_no_urls url_from_url_def)

lemma extract_url_tag:
  "no_urls replay_data \<Longrightarrow> map_of replay_data ''url'' = None \<Longrightarrow>
   map_of replay_data ''tags'' = Some (PList ts) \<Longrightarrow> list_all is_dict ts \<Longrightarrow>
   find is_url_tag ts = Some (PDict e) \<Longrightarrow>
   extract_url replay_data = Inr (dict_get e ''value'' (PStr []))"
  by (simp add: extract_url_no_urls url_from_url_def url_from_tags_def tags_loop_found)

lemma extract_url_fallback:
  "no_urls replay_data \<Longrightarrow> map_of replay_data ''url'' = None \<Longrightarrow>
   map_of replay_data ''tags'' = None
     \<or> (map_of replay_data ''tags'' = Some (PList ts) \<and> list_all is_dict ts
          \<and> find is_url_tag ts = None) \<Longrightarrow>
   extract_url replay_data = Inr (PStr ''https://example.com'')"
  by (auto simp: extract_url_no_urls url_from_url_def url_from_tags_def tags_loop_none
      fallback_url_def)

lemma extract_url_returns:
  assumes "urls_ok replay_data" and "tags_ok replay_data"
  shows "\<exists>u. extract_url replay_data = Inr u"
proof -
  have tags: "\<exists>u. url_from_tags replay_data = Inr u"
  proof (cases "map_of replay_data ''tags''")
    case None
    then show ?thesis by (simp add: url_from_tags_def)
  next
    case (Some tags)
    with assms(2) obtain ts where ts: "tags = PList ts" "list_all is_dict ts"
      by (cases tags) (auto simp: tags_ok_def)
    from tags_loop_returns[OF ts(2)] obtain r where "tags_loop ts = Inr r" ..
    with Some ts show ?thesis by (cases r) (simp_all add: url_from_tags_def)
  qed
  then have rest: "\<exists>u. url_from_url replay_data = Inr u"
    by (cases "map_of replay_data ''url''") (simp_all add: url_from_url_def)
  show ?thesis
  proof (cases "map_of replay_data ''urls''")
    case None
    with rest show ?thesis by (simp add: extract_url_def)
  next
    case (Some urls)
    with assms(1) obtain us where "urls = PList us" by (cases urls) (auto simp: urls_ok_def)
    with Some rest show ?thesis by (cases us) (simp_all add: extract_url_def)
  qed
qed

lemma extract_errors_returns:
  assumes "error_ids_ok replay_data"
  shows "\<exists>errs. extract_errors replay_data = Inr errs"
proof (cases "map_of replay_data ''errors''")
  case (Some errs)
  then show ?thesis by (simp add: extract_errors_def)
next
  case None
  show ?thesis
  proof (cases "map_of replay_data ''error_ids''")
    case None
    with \<open>map_of replay_data ''errors'' = None\<close> show ?thesis by (simp add: extract_errors_def)
  next
    case (Some ids)
    with assms obtain eids where "ids = PList eids" by (cases ids) (auto simp: error_ids_ok_def)
    with Some \<open>map_of replay_data ''errors'' = None\<close> show ?thesis
      by (simp add: extract_errors_def)
  qed
qed

lemmas normalizer_defs =
  normalize_raw_def analyze_replay_def extract_url_def url_from_url_def url_from_tags_def
  fallback_url_def extract_errors_def extract_actions_def extract_network_requests_def
  build_metadata_def dict_get_def Let_def

text \<open>
  C5. The url of the normalized session is resolved by a chain in which the first match
  wins: the first element of a non-empty \<^verbatim>\<open>urls\<close> list; else (no \<^verbatim>\<open>urls\<close>, or an
  empty one) the \<^verbatim>\<open>url\<close> field when the key is present; else the value of the first
  entry of the \<^verbatim>\<open>tags\<close> list whose \<^verbatim>\<open>key\<close> is \<^verbatim>\<open>"url"\<close>; else, with no such
  entry or no \<^verbatim>\<open>tags\<close>, \<^verbatim>\<open>"https://example.com"\<close>. A record with
  \<^verbatim>\<open>urls: ["A"]\<close> and \<^verbatim>\<open>url: "B"\<close> normalizes to url \<^verbatim>\<open>"A"\<close>; a record with
  \<^verbatim>\<open>url: "B"\<close> and a tags entry \<^verbatim>\<open>{key: "url", value: "C"}\<close> normalizes to url
  \<^verbatim>\<open>"B"\<close>.
\<close>

theorem url_fallback_chain:
  "(\<forall>s. normalize_raw replay_data = Inr s \<longrightarrow> extract_url replay_data = Inr (url s))
   \<and> (map_of replay_data ''urls'' = Some (PList (u # us)) \<longrightarrow> extract_url replay_data = Inr u)
   \<and> (no_urls replay_data \<and> map_of replay_data ''url'' = Some v
        \<longrightarrow> extract_url replay_data = Inr v)
   \<and> (no_urls replay_data \<and> map_of replay_data ''url'' = None
        \<and> map_of replay_data ''tags'' = Some (PList ts) \<and> list_all is_dict ts
        \<and> find is_url_tag ts = Some (PDict e) \<and> map_of e ''value'' = Some w
        \<longrightarrow> extract_url replay_data = Inr w)
   \<and> (no_urls replay_data \<and> map_of replay_data ''url'' = None
        \<and> (map_of replay_data ''tags'' = None
             \<or> (map_of replay_data ''tags'' = Some (PList ts) \<and> list_all is_dict ts
                  \<and> find is_url_tag ts = None))
        \<longrightarrow> extract_url replay_data = Inr (PStr ''https://example.com''))
   \<and> map_sum id url (normalize_raw urls_and_url) = Inr (PStr ''A'')
   \<and> map_sum id url (normalize_raw url_and_tag) = Inr (PStr ''B'')"
proof -
  have "no_urls replay_data \<Longrightarrow> map_of replay_data ''url'' = None \<Longrightarrow>
      map_of replay_data ''tags'' = Some (PList ts) \<Longrightarrow> list_all is_dict ts \<Longrightarrow>
      find is_url_tag ts = Some (PDict e) \<Longrightarrow> map_of e ''value'' = Some w \<Longrightarrow>
      extract_url replay_data = Inr w"
    using extract_url_tag[of replay_data ts e] by (simp add: dict_get_def)
  moreover have "map_sum id url (normalize_raw urls_and_url) = Inr (PStr ''A'')"
    by (simp add: urls_and_url_def normalizer_defs)
  moreover have "map_sum id url (normalize_raw url_and_tag) = Inr (PStr ''B'')"
    by (simp add: url_and_tag_def no_urls_def normalizer_defs)
  ultimately show ?thesis
    using normalize_raw_url[of replay_data] extract_url_urls[of replay_data u us]
      extract_url_url[of replay_data v] extract_url_fallback[of replay_data ts]
    by blast
qed

theorem url_fallback_chain_witness:
  "map_sum id url (normalize_raw urls_and_url) = Inr (PStr ''A'')
   \<and> extract_url urls_and_url = Inr (PStr ''A'')
   \<and> extract_url url_and_tag = Inr (PStr ''B'')
   \<and> extract_url tag_only = Inr (PStr ''C'')
   \<and> extract_url sample_replay = Inr (PStr ''https://example.com/app'')
   \<and> extract_url [] = Inr (PStr ''https://example.com'')"
proof -
  have "map_of urls_and_url ''urls'' = Some (PList (PStr ''A'' # []))"
    by (simp add: urls_and_url_def)
  with url_fallback_chain[of urls_and_url "PStr ''A''" "[]"]
  have a: "extract_url urls_and_url = Inr (PStr ''A'')" by blast
  have "no_urls url_and_tag \<and> map_of url_and_tag ''url'' = Some (PStr ''B'')"
    by (simp add: url_and_tag_def no_urls_def)
  with url_fallback_chain[of url_and_tag _ _ "PStr ''B''"]
  have b: "extract_url url_and_tag = Inr (PStr ''B'')" by blast
  have "no_urls tag_only \<and> map_of tag_only ''url'' = None
      \<and> map_of tag_only ''tags'' =
          Some (PList [PDict [(''key'', PStr ''env''), (''value'', PStr ''prod'')],
                       PDict [(''key'', PStr ''url''), (''value'', PStr ''C'')]])
      \<and> list_all is_dict [PDict [(''key'', PStr ''env''), (''value'', PStr ''prod'')],
                          PDict [(''key'', PStr ''url''), (''value'', PStr ''C'')]]
      \<and> find is_url_tag [PDict [(''key'', PStr ''env''), (''value'', PStr ''prod'')],
                          PDict [(''key'', PStr ''url''), (''value'', PStr ''C'')]]
          = Some (PDict [(''key'', PStr ''url''), (''value'', PStr ''C'')])
      \<and> map_of [(''key'', PStr ''url''), (''value'', PStr ''C'')] ''value'' = Some (PStr ''C'')"
    by (simp add: tag_only_def no_urls_def)
  with url_fallback_chain[of tag_only _ _ _
      "[PDict [(''key'', PStr ''env''), (''value'', PStr ''prod'')],
        PDict [(''key'', PStr ''url''), (''value'', PStr ''C'')]]"
      "[(''key'', PStr ''url''), (''value'', PStr ''C'')]" "PStr ''C''"]
  have c: "extract_url tag_only = Inr (PStr ''C'')" by blast
  have "no_urls sample_replay
      \<and> map_of sample_replay ''url'' = Some (PStr ''https://example.com/app'')"
    by (simp add: sample_replay_def no_urls_def)
  with url_fallback_chain[of sample_replay _ _ "PStr ''https://example.com/app''"]
  have d: "extract_url sample_replay = Inr (PStr ''https://example.com/app'')" by blast
  have "no_urls [] \<and> map_of ([] :: pydict) ''url'' = None \<and> map_of ([] :: pydict) ''tags'' = None"
    by (simp add: no_urls_def)
  with url_fallback_chain[of "[]"]
  have e: "extract_url [] = Inr (PStr ''https://example.com'')" by blast
  have "\<exists>s. normalize_raw urls_and_url = Inr s"
    by (simp add: urls_and_url_def normalizer_defs)
  then obtain s where s: "normalize_raw urls_and_url = Inr s" ..
  with url_fallback_chain[of urls_and_url] have "extract_url urls_and_url = Inr (url s)"
    by blast
  with a s have "map_sum id url (normalize_raw urls_and_url) = Inr (PStr ''A'')" by simp
  with a b c d e show ?thesis by simp
qed

text \<open>
  C10, as stated: with no \<^verbatim>\<open>urls\<close> and no \<^verbatim>\<open>url\<close> field, a \<^verbatim>\<open>tags\<close> list that
  contains an entry with key \<^verbatim>\<open>"url"\<close> and no \<^verbatim>\<open>value\<close> field would give the url
  \<^verbatim>\<open>""\<close>. It does not when an earlier entry with key \<^verbatim>\<open>"url"\<close> has a value (the
  loop returns at the first one), nor when an earlier entry is not a mapping (its
  \<^verbatim>\<open>get\<close> raises).
\<close>

theorem url_tag_without_value_counterexample:
  "map_of two_url_tags ''urls'' = None
   \<and> map_of two_url_tags ''url'' = None
   \<and> map_of two_url_tags ''tags'' =
        Some (PList [PDict [(''key'', PStr ''url''), (''value'', PStr ''X'')],
                     PDict [(''key'', PStr ''url'')]])
   \<and> map_of [(''key'', PStr ''url'')] ''key'' = Some (PStr ''url'')
   \<and> map_of [(''key'', PStr ''url'')] ''value'' = None
   \<and> map_sum id url (normalize_raw two_url_tags) = Inr (PStr ''X'')
   \<and> PStr ''X'' \<noteq> PStr []
   \<and> map_of tag_after_string ''tags'' = Some (PList [PStr ''x'', PDict [(''key'', PStr ''url'')]])
   \<and> normalize_raw tag_after_string = Inl AttributeError"
  by (simp add: two_url_tags_def tag_after_string_def normalizer_defs)

text \<open>
  C10, amended. With no \<^verbatim>\<open>urls\<close> and no \<^verbatim>\<open>url\<close> field, and a \<^verbatim>\<open>tags\<close> list whose
  first entry with key \<^verbatim>\<open>"url"\<close> has no \<^verbatim>\<open>value\<close> field, the entries before it
  being mappings, the url is resolved to \<^verbatim>\<open>""\<close>, not to the placeholder: that is the
  url of the session the normalizer returns, and it returns one whenever
  \<^verbatim>\<open>error_ids\<close> is absent or a list.
\<close>

theorem url_tag_without_value:
  assumes "map_of replay_data ''urls'' = None"
    and "map_of replay_data ''url'' = None"
    and "map_of replay_data ''tags'' = Some (PList ts)"
    and "list_all is_dict (takeWhile (\<lambda>t. \<not> is_url_tag t) ts)"
    and "find is_url_tag ts = Some (PDict e)"
    and "map_of e ''value'' = None"
  shows "extract_url replay_data = Inr (PStr [])
    \<and> (\<forall>s. normalize_raw replay_data = Inr s \<longrightarrow> url s = PStr [])
    \<and> (error_ids_ok replay_data \<longrightarrow> (\<exists>s. normalize_raw replay_data = Inr s))"
proof -
  from assms(4,5) have "tags_loop ts = Inr (Some (dict_get e ''value'' (PStr [])))"
    by (rule tags_loop_first)
  with assms(6) have "tags_loop ts = Inr (Some (PStr []))" by (simp add: dict_get_def)
  with assms(1,2,3) have u: "extract_url replay_data = Inr (PStr [])"
    by (simp add: extract_url_def url_from_url_def url_from_tags_def)
  moreover from u have "\<forall>s. normalize_raw replay_data = Inr s \<longrightarrow> url s = PStr []"
    by (auto dest: normalize_raw_url)
  moreover have "error_ids_ok replay_data \<longrightarrow> (\<exists>s. normalize_raw replay_data = Inr s)"
  proof
    assume "error_ids_ok replay_data"
    then obtain errs where "extract_errors replay_data = Inr errs"
      using extract_errors_returns by blast
    with u show "\<exists>s. normalize_raw replay_data = Inr s"
      using normalize_raw_returns by blast
  qed
  ultimately show ?thesis by blast
qed

theorem url_tag_without_value_witness:
  "extract_url tag_without_value = Inr (PStr [])
   \<and> map_sum id url (normalize_raw tag_without_value) = Inr (PStr [])"
proof -
  have h: "map_of tag_without_value ''urls'' = None"
    "map_of tag_without_value ''url'' = None"
    "map_of tag_without_value ''tags'' = Some (PList [PDict [(''key'', PStr ''url'')]])"
    "list_all is_dict (takeWhile (\<lambda>t. \<not> is_url_tag t) [PDict [(''key'', PStr ''url'')]])"
    "find is_url_tag [PDict [(''key'', PStr ''url'')]] = Some (PDict [(''key'', PStr ''url'')])"
    "map_of [(''key'', PStr ''url'')] ''value'' = None"
    by (simp_all add: tag_without_value_def)
  have ok: "error_ids_ok tag_without_value"
    by (simp add: error_ids_ok_def tag_without_value_def)
  from url_tag_without_value[OF h] ok
  obtain s where "normalize_raw tag_without_value = Inr s" "url s = PStr []"
    "extract_url tag_without_value = Inr (PStr [])"
    by blast
  then show ?thesis by simp
qed

text \<open>
  C7, as stated: normalization would raise no error on any raw record, wrong-typed
  fields included. A record whose \<^verbatim>\<open>urls\<close> field is the number 5 raises
  \<^verbatim>\<open>TypeError\<close> at \<^verbatim>\<open>replay_data['urls'][0]\<close>, and the analyzer's list stays as it was.
\<close>

theorem normalizer_total_counterexample:
  "map_of urls_number ''urls'' = Some (PInt 5)
   \<and> analyze_replay urls_number \<lparr>sessions = []\<rparr> = Inl TypeError"
  by (simp add: urls_number_def normalizer_defs)

text \<open>
  C7, amended. On every raw record in which \<^verbatim>\<open>urls\<close>, where present, is a list,
  \<^verbatim>\<open>tags\<close>, where present, is a list of mappings, and \<^verbatim>\<open>error_ids\<close>, where present,
  is a list, whatever fields are missing and whatever the other fields hold,
  \<^verbatim>\<open>analyze_replay\<close> raises no error: it returns a session and appends it to the
  analyzer's list.
\<close>

theorem normalizer_total:
  assumes "record_shape replay_data"
  shows "\<exists>s. analyze_replay replay_data self = Inr (s, self\<lparr>sessions := sessions self @ [s]\<rparr>)"
proof -
  from assms obtain u where "extract_url replay_data = Inr u"
    using extract_url_returns by (auto simp: record_shape_def)
  moreover from assms obtain errs where "extract_errors replay_data = Inr errs"
    using extract_errors_returns by (auto simp: record_shape_def)
  ultimately obtain s where "normalize_raw replay_data = Inr s"
    using normalize_raw_returns by blast
  then show ?thesis by (simp add: analyze_replay_normalize_raw)
qed

theorem normalizer_total_witness:
  "record_shape tag_only \<and> record_shape sample_replay \<and> record_shape []
   \<and> (\<exists>s. analyze_replay tag_only \<lparr>sessions = []\<rparr> = Inr (s, \<lparr>sessions = [s]\<rparr>))
   \<and> (\<exists>s. analyze_replay sample_replay \<lparr>sessions = []\<rparr> = Inr (s, \<lparr>sessions = [s]\<rparr>))"
proof -
  have a: "record_shape tag_only"
    by (simp add: record_shape_def urls_ok_def tags_ok_def error_ids_ok_def tag_only_def)
  have b: "record_shape sample_replay"
    by (simp add: record_shape_def urls_ok_def tags_ok_def error_ids_ok_def sample_replay_def)
  have c: "record_shape []"
    by (simp add: record_shape_def urls_ok_def tags_ok_def error_ids_ok_def)
  from normalizer_total[OF a, of "\<lparr>sessions = []\<rparr>"] normalizer_total[OF b, of "\<lparr>sessions = []\<rparr>"]
  show ?thesis using a b c by simp
qed

text \<open>
  C8. For every raw record, action extraction and network-request extraction give the
  empty list, so the \<^verbatim>\<open>actions\<close> and \<^verbatim>\<open>network_requests\<close> of every session
  \<^verbatim>\<open>analyze_replay\<close> returns are empty.
\<close>

theorem extraction_is_empty:
  "extract_actions replay_data = []
   \<and> extract_network_requests replay_data = []
   \<and> (\<forall>s self'. analyze_replay replay_data self = Inr (s, self')
         \<longrightarrow> actions s = [] \<and> network_requests s = [])"
  by (auto simp: analyze_replay_def extract_actions_def extract_network_requests_def Let_def
      split: sum.splits)

theorem extraction_is_empty_witness:
  "\<exists>s self'. analyze_replay sample_replay \<lparr>sessions = []\<rparr> = Inr (s, self')
      \<and> replay_id s = PStr ''abc123def456''
      \<and> actions s = [] \<and> network_requests s = []"
proof -
  have "\<exists>s self'. analyze_replay sample_replay \<lparr>sessions = []\<rparr> = Inr (s, self')
      \<and> replay_id s = PStr ''abc123def456''"
    by (simp add: sample_replay_def normalizer_defs)
  then obtain s self' where
    run: "analyze_replay sample_replay \<lparr>sessions = []\<rparr> = Inr (s, self')"
    and rid: "replay_id s = PStr ''abc123def456''"
    by blast
  from extraction_is_empty[of sample_replay "\<lparr>sessions = []\<rparr>"] run
  have "actions s = [] \<and> network_requests s = []" by blast
  with run rid show ?thesis by blast
qed


section \<open>Properties of the selector\<close>

lemma mset_py_sort_reverse: "mset (py_sort_reverse key xs) = mset xs"
  by (simp add: py_sort_reverse_def)

lemma sorted_py_sort_reverse:
  "sorted_wrt (\<lambda>a b. a \<ge> b) (map key (py_sort_reverse key xs))"
proof -
  have "sorted (map key (sort_key key (rev xs)))" by simp
  then have "sorted_wrt (\<lambda>a b. a \<ge> b) (rev (map key (sort_key key (rev xs))))"
    by (simp add: sorted_wrt_rev)
  then show ?thesis by (simp add: py_sort_reverse_def rev_map)
qed

lemma stable_py_sort_reverse:
  "filter (\<lambda>x. key x = k) (py_sort_reverse key xs) = filter (\<lambda>x. key x = k) xs"
proof -
  have "filter (\<lambda>x. key x = k) (py_sort_reverse key xs)
      = rev (filter (\<lambda>x. key x = k) (sort_key key (rev xs)))"
    by (simp add: py_sort_reverse_def rev_filter)
  also have "\<dots> = rev (filter (\<lambda>x. key x = k) (rev xs))"
    by (simp only: sort_key_stable)
  also have "\<dots> = filter (\<lambda>x. key x = k) xs"
    by (simp add: rev_filter)
  finally show ?thesis .
qed

lemma py_slice_to_nonneg: "0 \<le> stop \<Longrightarrow> py_slice_to stop xs = take (nat stop) xs"
  by (simp add: py_slice_to_def)

lemmas select_defs =
  select_sessions_for_testing_def py_sort_reverse_def py_slice_to_def Let_def

text \<open>
  C1, as stated: for every \<^verbatim>\<open>max_sessions\<close> the result would be the ranked list
  truncated to its first \<^verbatim>\<open>max_sessions\<close> entries. With \<^verbatim>\<open>max_sessions = -1\<close> the
  slice \<^verbatim>\<open>candidates[:-1]\<close> drops the last entry only: of four qualifying sessions three
  are returned, more than \<^verbatim>\<open>max_sessions\<close>.
\<close>

theorem select_negative_counterexample:
  "map replay_id (select_sessions_for_testing five_sessions (- 1) True 1000)
     = [''b'', ''d'', ''c'']
   \<and> \<not> int (length (select_sessions_for_testing five_sessions (- 1) True 1000)) \<le> - 1"
  by (simp add: select_defs five_sessions_def mk_session_def)

text \<open>
  C1, amended. For every collection of sessions, every \<^verbatim>\<open>prioritize_errors\<close> and
  \<^verbatim>\<open>min_duration\<close>, and every \<^verbatim>\<open>max_sessions\<close> that is not negative, the selector
  returns the first \<^verbatim>\<open>max_sessions\<close> entries of a list \<open>ranked\<close> that holds exactly
  the sessions with \<^verbatim>\<open>duration >= min_duration\<close>, is in descending order of the pair
  (error count, duration) when \<^verbatim>\<open>prioritize_errors\<close> is true and of the duration
  otherwise, and keeps sessions with equal keys in their order in the filtered
  collection.
\<close>

theorem select_spec:
  assumes "0 \<le> max_sessions"
  shows "\<exists>ranked.
      select_sessions_for_testing self max_sessions prioritize_errors min_duration
        = take (nat max_sessions) ranked
    \<and> mset ranked = mset (filter (\<lambda>s. min_duration \<le> duration s) (sessions self))
    \<and> (prioritize_errors \<longrightarrow>
          sorted_wrt (\<lambda>a b. a \<ge> b) (map (\<lambda>s. (length (errors s), duration s)) ranked)
        \<and> (\<forall>k. filter (\<lambda>s. (length (errors s), duration s) = k) ranked
              = filter (\<lambda>s. (length (errors s), duration s) = k)
                  (filter (\<lambda>s. min_duration \<le> duration s) (sessions self))))
    \<and> (\<not> prioritize_errors \<longrightarrow>
          sorted_wrt (\<lambda>a b. a \<ge> b) (map duration ranked)
        \<and> (\<forall>k. filter (\<lambda>s. duration s = k) ranked
              = filter (\<lambda>s. duration s = k)
                  (filter (\<lambda>s. min_duration \<le> duration s) (sessions self))))"
proof (cases prioritize_errors)
  case True
  let ?c = "filter (\<lambda>s. min_duration \<le> duration s) (sessions self)"
  let ?r = "py_sort_reverse (\<lambda>s. (length (errors s), duration s)) ?c"
  have "select_sessions_for_testing self max_sessions prioritize_errors min_duration
      = take (nat max_sessions) ?r"
    using True assms by (simp add: select_sessions_for_testing_def py_slice_to_nonneg)
  moreover have "mset ?r = mset ?c" by (rule mset_py_sort_reverse)
  moreover have "sorted_wrt (\<lambda>a b. a \<ge> b) (map (\<lambda>s. (length (errors s), duration s)) ?r)"
    by (rule sorted_py_sort_reverse)
  moreover have "\<forall>k. filter (\<lambda>s. (length (errors s), duration s) = k) ?r
      = filter (\<lambda>s. (length (errors s), duration s) = k) ?c"
    by (simp only: stable_py_sort_reverse) simp
  ultimately show ?thesis using True by blast
next
  case False
  let ?c = "filter (\<lambda>s. min_duration \<le> duration s) (sessions self)"
  let ?r = "py_sort_reverse duration ?c"
  have "select_sessions_for_testing self max_sessions prioritize_errors min_duration
      = take (nat max_sessions) ?r"
    using False assms by (simp add: select_sessions_for_testing_def py_slice_to_nonneg)
  moreover have "mset ?r = mset ?c" by (rule mset_py_sort_reverse)
  moreover have "sorted_wrt (\<lambda>a b. a \<ge> b) (map duration ?r)"
    by (rule sorted_py_sort_reverse)
  moreover have "\<forall>k. filter (\<lambda>s. duration s = k) ?r = filter (\<lambda>s. duration s = k) ?c"
    by (simp only: stable_py_sort_reverse) simp
  ultimately show ?thesis using False by blast
qed

theorem select_spec_witness:
  "(0::int) \<le> 3
   \<and> map replay_id (select_sessions_for_testing five_sessions 3 True 1000) = [''b'', ''d'', ''c'']
   \<and> (\<exists>ranked.
        select_sessions_for_testing five_sessions 3 True 1000 = take 3 ranked
      \<and> mset ranked = mset (filter (\<lambda>s. 1000 \<le> duration s) (sessions five_sessions))
      \<and> sorted_wrt (\<lambda>a b. a \<ge> b) (map (\<lambda>s. (length (errors s), duration s)) ranked))"
proof -
  have h: "(0::int) \<le> 3" by simp
  from select_spec[OF h, of five_sessions True 1000]
  obtain ranked where r:
    "select_sessions_for_testing five_sessions 3 True 1000 = take 3 ranked"
    "mset ranked = mset (filter (\<lambda>s. 1000 \<le> duration s) (sessions five_sessions))"
    "sorted_wrt (\<lambda>a b. a \<ge> b) (map (\<lambda>s. (length (errors s), duration s)) ranked)"
    by auto
  have ev:
    "map replay_id (select_sessions_for_testing five_sessions 3 True 1000) = [''b'', ''d'', ''c'']"
    by (simp add: select_defs five_sessions_def mk_session_def)
  from r have "\<exists>ranked.
        select_sessions_for_testing five_sessions 3 True 1000 = take 3 ranked
      \<and> mset ranked = mset (filter (\<lambda>s. 1000 \<le> duration s) (sessions five_sessions))
      \<and> sorted_wrt (\<lambda>a b. a \<ge> b) (map (\<lambda>s. (length (errors s), duration s)) ranked)"
    by (intro exI[of _ ranked]) simp
  with h ev show ?thesis by (intro conjI)
qed


section \<open>Properties of the script synthesizer\<close>

lemma stmt_neq:
  "click_stmt x \<noteq> wait_stmt" "fill_stmt x y \<noteq> wait_stmt" "goto_stmt x \<noteq> wait_stmt"
  "screenshot_stmt x \<noteq> wait_stmt"
  "fill_stmt x y \<noteq> click_stmt z" "goto_stmt x \<noteq> click_stmt z" "screenshot_stmt x \<noteq> click_stmt z"
  "wait_stmt \<noteq> click_stmt z"
  "click_stmt x \<noteq> fill_stmt y z" "goto_stmt x \<noteq> fill_stmt y z"
  "click_stmt x \<noteq> goto_stmt z" "fill_stmt x y \<noteq> goto_stmt z"
  "click_stmt x \<noteq> []" "fill_stmt x y \<noteq> []" "goto_stmt x \<noteq> []" "[] \<noteq> wait_stmt"
  by (simp_all add: click_stmt_def fill_stmt_def goto_stmt_def wait_stmt_def screenshot_stmt_def)

lemma render_action_append:
  "render_action a ls = ls @ render_action a []"
  by (simp add: render_action_def Let_def)

lemma render_actions_concat:
  "render_actions as ls = ls @ concat (map (\<lambda>a. render_action a []) as)"
proof (induction as arbitrary: ls)
  case Nil
  then show ?case by simp
next
  case (Cons a as)
  have "render_actions (a # as) ls = render_actions as (render_action a ls)" by simp
  also have "\<dots> = render_action a ls @ concat (map (\<lambda>a. render_action a []) as)"
    by (rule Cons.IH)
  also have "\<dots> = ls @ render_action a [] @ concat (map (\<lambda>a. render_action a []) as)"
    using render_action_append[of a ls] by simp
  finally show ?case by simp
qed

lemma script_lines_of_structure:
  "script_lines_of s =
     initial_lines s @ concat (map (\<lambda>a. render_action a []) (actions s))
       @ [''  // Take final screenshot for comparison'', screenshot_stmt (replay_id s), ''});'']"
  by (simp add: script_lines_of_def Let_def render_actions_concat)

lemma render_action_shape:
  "\<exists>stmts. render_action a [] = stmts @ [wait_stmt, []]
     \<and> length stmts \<le> 1
     \<and> (\<forall>x. click_stmt x \<in> set stmts \<longrightarrow> action_type a = ''click'' \<and> selector a \<noteq> None)
     \<and> (\<forall>x y. fill_stmt x y \<in> set stmts \<longrightarrow>
           action_type a = ''input'' \<and> selector a \<noteq> None \<and> val a \<noteq> None)
     \<and> (\<forall>x. goto_stmt x \<in> set stmts \<longrightarrow> action_type a = ''navigation'' \<and> target a \<noteq> None)
     \<and> (\<not> (action_type a = ''click'' \<and> selector a \<noteq> None)
          \<and> \<not> (action_type a = ''input'' \<and> selector a \<noteq> None \<and> val a \<noteq> None)
          \<and> \<not> (action_type a = ''navigation'' \<and> target a \<noteq> None)
          \<longrightarrow> stmts = [])"
proof -
  consider (click) "action_type a = ''click'' \<and> str_truthy (selector a)"
    | (fill) "\<not> (action_type a = ''click'' \<and> str_truthy (selector a))"
        "action_type a = ''input'' \<and> str_truthy (selector a) \<and> str_truthy (val a)"
    | (goto) "\<not> (action_type a = ''click'' \<and> str_truthy (selector a))"
        "\<not> (action_type a = ''input'' \<and> str_truthy (selector a) \<and> str_truthy (val a))"
        "action_type a = ''navigation'' \<and> str_truthy (target a)"
    | (none) "\<not> (action_type a = ''click'' \<and> str_truthy (selector a))"
        "\<not> (action_type a = ''input'' \<and> str_truthy (selector a) \<and> str_truthy (val a))"
        "\<not> (action_type a = ''navigation'' \<and> str_truthy (target a))"
    by blast
  then show ?thesis
  proof cases
    case click
    then have "render_action a [] = [click_stmt (str_format (selector a))] @ [wait_stmt, []]"
      by (simp add: render_action_def)
    moreover from click have "selector a \<noteq> None" by (cases "selector a") auto
    ultimately show ?thesis using click
      by (intro exI[of _ "[click_stmt (str_format (selector a))]"]) (simp add: stmt_neq)
  next
    case fill
    then have "render_action a [] =
        [fill_stmt (str_format (selector a)) (str_format (val a))] @ [wait_stmt, []]"
      by (simp add: render_action_def)
    moreover from fill have "selector a \<noteq> None" "val a \<noteq> None"
      by (cases "selector a"; cases "val a"; auto)+
    ultimately show ?thesis using fill
      by (intro exI[of _ "[fill_stmt (str_format (selector a)) (str_format (val a))]"])
         (simp add: stmt_neq)
  next
    case goto
    then have "render_action a [] = [goto_stmt (str_format (target a))] @ [wait_stmt, []]"
      by (simp add: render_action_def)
    moreover from goto have "target a \<noteq> None" by (cases "target a") auto
    ultimately show ?thesis using goto
      by (intro exI[of _ "[goto_stmt (str_format (target a))]"]) (simp add: stmt_neq)
  next
    case none
    then have "render_action a [] = [] @ [wait_stmt, []]"
      by (simp add: render_action_def)
    then show ?thesis by (intro exI[of _ "[]"]) simp
  qed
qed

lemma count_wait_render_action: "count_list (render_action a []) wait_stmt = 1"
  by (simp add: render_action_def stmt_neq)



lemma count_wait_initial: "count_list (initial_lines s) wait_stmt = 0"
  by (simp add: initial_lines_def wait_stmt_def goto_stmt_def)

lemma count_wait_actions:
  "count_list (concat (map (\<lambda>a. render_action a []) as)) wait_stmt = length as"
  by (induction as) (simp_all add: count_list_append count_wait_render_action)

lemma count_wait_script: "count_list (script_lines_of s) wait_stmt = length (actions s)"
proof -
  have "count_list [''  // Take final screenshot for comparison'',
      screenshot_stmt (replay_id s), ''});''] wait_stmt = 0"
    by (simp add: wait_stmt_def screenshot_stmt_def)
  then show ?thesis
    by (simp only: script_lines_of_structure count_list_append count_wait_initial
        count_wait_actions)
qed

lemma click_not_initial: "click_stmt x \<notin> set (initial_lines s)"
  by (simp add: initial_lines_def click_stmt_def goto_stmt_def)

lemma null_click_lines:
  assumes "actions s = [a]" and "action_type a = ''click''" and "selector a = None"
  shows "script_lines_of s =
     initial_lines s @ [wait_stmt, [], ''  // Take final screenshot for comparison'',
       screenshot_stmt (replay_id s), ''});'']"
  using assms by (simp add: script_lines_of_structure render_action_def)

lemma split_from_single: "single_line l \<Longrightarrow> split_from line l = [line @ l]"
  by (induction l arbitrary: line) (auto simp: single_line_def)

lemma split_from_append:
  "single_line l \<Longrightarrow> split_from line (l @ CHR 0x0A # rest) = (line @ l) # split_from [] rest"
  by (induction l arbitrary: line) (auto simp: single_line_def)

lemma split_lines_single: "single_line l \<Longrightarrow> split_lines l = [l]"
  by (simp add: split_lines_def split_from_single)

lemma split_lines_append:
  "single_line l \<Longrightarrow> split_lines (l @ CHR 0x0A # rest) = l # split_lines rest"
  by (simp add: split_lines_def split_from_append)

lemma split_lines_join:
  "ls \<noteq> [] \<Longrightarrow> list_all single_line ls \<Longrightarrow> split_lines (py_join ''\<newline>'' ls) = ls"
proof (induction "''\<newline>''" ls rule: py_join.induct)
  case 1
  then show ?case by simp
next
  case (2 x)
  then show ?case by (simp add: split_lines_single)
next
  case (3 x y ys)
  then have "split_lines (py_join ''\<newline>'' (y # ys)) = y # ys" by simp
  with 3(3) show ?case using split_lines_append[of x] by simp
qed

lemma digit_char_single: "d < 10 \<Longrightarrow> digit_char d \<noteq> CHR 0x0A"
proof -
  assume "d < 10"
  then have "digit_char d \<in> set ''0123456789''"
    unfolding digit_char_def by (intro nth_mem) simp
  then show ?thesis by auto
qed

lemma single_line_str_nat: "single_line (str_nat n)"
proof (induction n rule: str_nat.induct)
  case (1 n)
  show ?case
  proof (cases "n < 10")
    case True
    then show ?thesis
      using digit_char_single[of n] by (subst str_nat.simps) (auto simp: single_line_def)
  next
    case False
    with 1 have "single_line (str_nat (n div 10))" by simp
    moreover have "digit_char (n mod 10) \<noteq> CHR 0x0A" by (rule digit_char_single) simp
    ultimately show ?thesis using False
      by (subst str_nat.simps) (auto simp: single_line_def)
  qed
qed

lemma single_line_str_int: "single_line (str_int i)"
  using single_line_str_nat[of "nat i"] single_line_str_nat[of "nat (- i)"]
  by (simp add: str_int_def single_line_def)

lemma single_line_append: "single_line (x @ y) = (single_line x \<and> single_line y)"
  by (auto simp: single_line_def)

lemma single_line_initial:
  "no_line_breaks s \<Longrightarrow> list_all single_line (initial_lines s)"
  using single_line_str_int[of "duration s"]
  by (simp add: no_line_breaks_def initial_lines_def goto_stmt_def single_line_append)
     (simp add: single_line_def)

lemma single_line_render_action:
  "single_line (str_format (selector a)) \<and> single_line (str_format (val a))
     \<and> single_line (str_format (target a)) \<Longrightarrow>
   list_all single_line (render_action a [])"
  by (simp add: render_action_def click_stmt_def fill_stmt_def goto_stmt_def wait_stmt_def
      single_line_append)
     (simp add: single_line_def)

lemma single_line_actions:
  "list_all (\<lambda>action. single_line (str_format (selector action))
                    \<and> single_line (str_format (val action))
                    \<and> single_line (str_format (target action))) as \<Longrightarrow>
   list_all single_line (concat (map (\<lambda>a. render_action a []) as))"
  by (induction as) (simp_all add: single_line_render_action)

lemma single_line_script:
  assumes "no_line_breaks s"
  shows "list_all single_line (script_lines_of s)"
proof -
  from assms have "list_all single_line (concat (map (\<lambda>a. render_action a []) (actions s)))"
    by (intro single_line_actions) (simp add: no_line_breaks_def)
  moreover from assms have "single_line (screenshot_stmt (replay_id s))"
    by (simp add: no_line_breaks_def screenshot_stmt_def single_line_append)
       (simp add: single_line_def)
  moreover have "single_line ''  // Take final screenshot for comparison''" "single_line ''});''"
    by (simp_all add: single_line_def)
  ultimately show ?thesis
    using single_line_initial[OF assms] by (simp add: script_lines_of_structure)
qed

lemma split_lines_script:
  assumes "no_line_breaks s"
  shows "split_lines (to_test_script s) = script_lines_of s"
proof -
  have "script_lines_of s \<noteq> []" by (simp add: script_lines_of_structure)
  then show ?thesis
    unfolding to_test_script_def using single_line_script[OF assms] by (rule split_lines_join)
qed

lemma stmt_inj:
  "click_stmt x = click_stmt y \<Longrightarrow> x = y" "goto_stmt x = goto_stmt y \<Longrightarrow> x = y"
  by (simp_all add: click_stmt_def goto_stmt_def)

lemma render_action_emits:
  "action_type a = ''click'' \<and> selector a = Some x \<and> x \<noteq> [] \<Longrightarrow>
     render_action a [] = [click_stmt x, wait_stmt, []]"
  "action_type a = ''input'' \<and> selector a = Some x \<and> x \<noteq> [] \<and> val a = Some y \<and> y \<noteq> [] \<Longrightarrow>
     render_action a [] = [fill_stmt x y, wait_stmt, []]"
  "action_type a = ''navigation'' \<and> target a = Some x \<and> x \<noteq> [] \<Longrightarrow>
     render_action a [] = [goto_stmt x, wait_stmt, []]"
  by (simp_all add: render_action_def)

lemma click_in_render_action:
  assumes "click_stmt x \<in> set (render_action a [])"
  shows "action_type a = ''click'' \<and> selector a = Some x \<and> x \<noteq> []"
proof -
  from render_action_shape[of a] obtain stmts where st:
    "render_action a [] = stmts @ [wait_stmt, []]"
    "\<forall>x. click_stmt x \<in> set stmts \<longrightarrow> action_type a = ''click'' \<and> selector a \<noteq> None"
    by blast
  from assms st(1) have "click_stmt x \<in> set stmts" by (simp add: stmt_neq)
  with st(2) have c: "action_type a = ''click''" and "selector a \<noteq> None" by blast+
  show ?thesis
  proof (cases "str_truthy (selector a)")
    case True
    then obtain z where z: "selector a = Some z" "z \<noteq> []" by (cases "selector a") simp_all
    with c have "render_action a [] = [click_stmt z, wait_stmt, []]"
      by (simp add: render_action_emits)
    with assms have "click_stmt x = click_stmt z" by (simp add: stmt_neq)
    then have "x = z" by (rule stmt_inj)
    with c z show ?thesis by simp
  next
    case False
    with c have "render_action a [] = [wait_stmt, []]" by (simp add: render_action_def)
    with assms show ?thesis by (simp add: stmt_neq)
  qed
qed

lemma fill_in_render_action:
  assumes "fill_stmt x y \<in> set (render_action a [])"
  shows "action_type a = ''input'' \<and> selector a \<noteq> None \<and> val a \<noteq> None"
proof -
  from render_action_shape[of a] obtain stmts where st:
    "render_action a [] = stmts @ [wait_stmt, []]"
    "\<forall>x y. fill_stmt x y \<in> set stmts \<longrightarrow>
       action_type a = ''input'' \<and> selector a \<noteq> None \<and> val a \<noteq> None"
    by blast
  from assms st(1) have "fill_stmt x y \<in> set stmts" by (simp add: stmt_neq)
  with st(2) show ?thesis by blast
qed

lemma goto_in_render_action:
  assumes "goto_stmt x \<in> set (render_action a [])"
  shows "action_type a = ''navigation'' \<and> target a = Some x \<and> x \<noteq> []"
proof -
  from render_action_shape[of a] obtain stmts where st:
    "render_action a [] = stmts @ [wait_stmt, []]"
    "\<forall>x. goto_stmt x \<in> set stmts \<longrightarrow> action_type a = ''navigation'' \<and> target a \<noteq> None"
    by blast
  from assms st(1) have "goto_stmt x \<in> set stmts" by (simp add: stmt_neq)
  with st(2) have c: "action_type a = ''navigation''" and "target a \<noteq> None" by blast+
  show ?thesis
  proof (cases "str_truthy (target a)")
    case True
    then obtain z where z: "target a = Some z" "z \<noteq> []" by (cases "target a") simp_all
    with c have "render_action a [] = [goto_stmt z, wait_stmt, []]"
      by (simp add: render_action_emits)
    with assms have "goto_stmt x = goto_stmt z" by (simp add: stmt_neq)
    then have "x = z" by (rule stmt_inj)
    with c z show ?thesis by simp
  next
    case False
    with c have "render_action a [] = [wait_stmt, []]" by (simp add: render_action_def)
    with assms show ?thesis by (simp add: stmt_neq)
  qed
qed

lemma final_lines_neq:
  "click_stmt x \<noteq> ''  // Take final screenshot for comparison''" "click_stmt x \<noteq> ''});''"
  "fill_stmt x y \<noteq> ''  // Take final screenshot for comparison''" "fill_stmt x y \<noteq> ''});''"
  "goto_stmt x \<noteq> ''  // Take final screenshot for comparison''" "goto_stmt x \<noteq> ''});''"
  "fill_stmt x y \<noteq> screenshot_stmt z" "goto_stmt x \<noteq> screenshot_stmt z"
  "click_stmt x \<noteq> screenshot_stmt z"
  by (simp_all add: click_stmt_def fill_stmt_def goto_stmt_def screenshot_stmt_def)

lemma fill_not_initial: "fill_stmt x y \<notin> set (initial_lines s)"
  by (simp add: initial_lines_def fill_stmt_def goto_stmt_def)

lemma goto_initial: "goto_stmt x \<in> set (initial_lines s) \<Longrightarrow> x = url s"
  by (auto simp: initial_lines_def goto_stmt_def)

lemma click_in_script:
  assumes "click_stmt x \<in> set (script_lines_of s)"
  shows "\<exists>a\<in>set (actions s). action_type a = ''click'' \<and> selector a = Some x \<and> x \<noteq> []"
proof -
  from assms obtain a where "a \<in> set (actions s)" "click_stmt x \<in> set (render_action a [])"
    by (auto simp: script_lines_of_structure click_not_initial final_lines_neq)
  then show ?thesis using click_in_render_action[of x a] by blast
qed

lemma fill_in_script:
  assumes "fill_stmt x y \<in> set (script_lines_of s)"
  shows "\<exists>a\<in>set (actions s). action_type a = ''input'' \<and> selector a \<noteq> None \<and> val a \<noteq> None"
proof -
  from assms obtain a where "a \<in> set (actions s)" "fill_stmt x y \<in> set (render_action a [])"
    by (auto simp: script_lines_of_structure fill_not_initial final_lines_neq)
  then show ?thesis using fill_in_render_action[of x y a] by blast
qed

lemma goto_in_script:
  assumes "goto_stmt x \<in> set (script_lines_of s)"
  shows "x = url s
    \<or> (\<exists>a\<in>set (actions s). action_type a = ''navigation'' \<and> target a = Some x \<and> x \<noteq> [])"
proof (cases "goto_stmt x \<in> set (initial_lines s)")
  case True
  then show ?thesis by (simp add: goto_initial)
next
  case False
  with assms obtain a where "a \<in> set (actions s)" "goto_stmt x \<in> set (render_action a [])"
    by (auto simp: script_lines_of_structure final_lines_neq)
  then show ?thesis using goto_in_render_action[of x a] by blast
qed

text \<open>
  C2, as stated: for every session the rendered script would hold exactly one wait
  statement per action, and no click statement when the sole action is a click with
  null selector. The f-strings format the url as it is: a url that holds line breaks
  puts lines of its own into the script, twice (in the comment and in the navigation
  statement). For \<open>line_break_session\<close>, whose sole action is a click with null
  selector, the text has three wait statements and a click statement.
\<close>

theorem render_line_break_counterexample:
  "actions line_break_session = [mk_action ''click'' None None None]
   \<and> selector (mk_action ''click'' None None None) = None
   \<and> split_lines (to_test_script line_break_session) =
       [''import { test, expect } from '@playwright/test';'',
        '''',
        ''test('replay-abc123de', async ({ page }) => {'',
        ''  // Original session duration: 45000ms'',
        ''  // URL: https://example.com/'',
        ''  await page.click('#a');'',
        ''  await page.waitForTimeout(100);'',
        ''//'',
        '''',
        ''  await page.goto('https://example.com/'',
        ''  await page.click('#a');'',
        ''  await page.waitForTimeout(100);'',
        ''//');'',
        '''',
        ''  await page.waitForTimeout(100);'',
        '''',
        ''  // Take final screenshot for comparison'',
        ''  await page.screenshot({ path: 'screenshots/replay-abc123de.png' });'',
        ''});'']
   \<and> count_list (split_lines (to_test_script line_break_session)) wait_stmt = 3
   \<and> click_stmt ''#a'' \<in> set (split_lines (to_test_script line_break_session))"
proof -
  have l: "split_lines (to_test_script line_break_session) =
       [''import { test, expect } from '@playwright/test';'',
        '''',
        ''test('replay-abc123de', async ({ page }) => {'',
        ''  // Original session duration: 45000ms'',
        ''  // URL: https://example.com/'',
        ''  await page.click('#a');'',
        ''  await page.waitForTimeout(100);'',
        ''//'',
        '''',
        ''  await page.goto('https://example.com/'',
        ''  await page.click('#a');'',
        ''  await page.waitForTimeout(100);'',
        ''//');'',
        '''',
        ''  await page.waitForTimeout(100);'',
        '''',
        ''  // Take final screenshot for comparison'',
        ''  await page.screenshot({ path: 'screenshots/replay-abc123de.png' });'',
        ''});'']"
    by (simp add: split_lines_def to_test_script_def script_lines_of_def initial_lines_def
        line_break_session_def mk_action_def render_action_def goto_stmt_def wait_stmt_def
        screenshot_stmt_def str_int_def str_nat.simps digit_char_def)
  have w: "count_list (split_lines (to_test_script line_break_session)) wait_stmt = 3"
    by (simp add: l wait_stmt_def)
  have c: "click_stmt ''#a'' \<in> set (split_lines (to_test_script line_break_session))"
    by (simp add: l click_stmt_def)
  have a: "actions line_break_session = [mk_action ''click'' None None None]"
    by (simp add: line_break_session_def)
  have s: "selector (mk_action ''click'' None None None) = None"
    by (simp add: mk_action_def)
  show ?thesis by (intro conjI) (rule a s l w c)+
qed

text \<open>
  C2, amended. For a session in which no formatted text holds a line break (the url, the first
  eight characters of the replay id, every action's selector, value and target), the
  lines of the string \<^verbatim>\<open>to_test_script\<close> returns are the initial lines (with the
  navigation statement to the session's url), then the lines of each action in order,
  then the screenshot lines. An action contributes at most one statement, followed by
  exactly one \<^verbatim>\<open>waitForTimeout(100)\<close> statement and an empty line: a click statement
  only when \<^verbatim>\<open>action_type\<close> is \<^verbatim>\<open>"click"\<close> with a non-null selector, a fill
  statement only when it is \<^verbatim>\<open>"input"\<close> with non-null selector and value, a goto
  statement only when it is \<^verbatim>\<open>"navigation"\<close> with a non-null target, none for any
  other shape, and the statement is emitted whenever the fields named are non-empty
  strings. The text holds as many wait statements as the session has actions; a click
  or fill line of the text comes from an action of that shape, a goto line from the
  session's url or from a navigation action. A session whose sole action is a click
  with null selector renders a text with the navigation statement, the screenshot
  statement, no click statement and exactly one wait statement.
\<close>

theorem render_spec:
  assumes "no_line_breaks s"
  shows "split_lines (to_test_script s) =
     initial_lines s @ concat (map (\<lambda>a. render_action a []) (actions s))
       @ [''  // Take final screenshot for comparison'', screenshot_stmt (replay_id s), ''});'']
   \<and> initial_lines s ! 6 = goto_stmt (url s)
   \<and> (\<exists>stmts. render_action a [] = stmts @ [wait_stmt, []]
        \<and> length stmts \<le> 1
        \<and> wait_stmt \<notin> set stmts
        \<and> (\<forall>x. click_stmt x \<in> set stmts \<longrightarrow> action_type a = ''click'' \<and> selector a \<noteq> None)
        \<and> (\<forall>x y. fill_stmt x y \<in> set stmts \<longrightarrow>
              action_type a = ''input'' \<and> selector a \<noteq> None \<and> val a \<noteq> None)
        \<and> (\<forall>x. goto_stmt x \<in> set stmts \<longrightarrow>
              action_type a = ''navigation'' \<and> target a \<noteq> None)
        \<and> (\<not> (action_type a = ''click'' \<and> selector a \<noteq> None)
             \<and> \<not> (action_type a = ''input'' \<and> selector a \<noteq> None \<and> val a \<noteq> None)
             \<and> \<not> (action_type a = ''navigation'' \<and> target a \<noteq> None)
             \<longrightarrow> stmts = []))
   \<and> (action_type a = ''click'' \<and> selector a = Some x \<and> x \<noteq> [] \<longrightarrow>
        render_action a [] = [click_stmt x, wait_stmt, []])
   \<and> (action_type a = ''input'' \<and> selector a = Some x \<and> x \<noteq> []
        \<and> val a = Some y \<and> y \<noteq> [] \<longrightarrow>
        render_action a [] = [fill_stmt x y, wait_stmt, []])
   \<and> (action_type a = ''navigation'' \<and> target a = Some x \<and> x \<noteq> [] \<longrightarrow>
        render_action a [] = [goto_stmt x, wait_stmt, []])
   \<and> count_list (split_lines (to_test_script s)) wait_stmt = length (actions s)
   \<and> (\<forall>x. click_stmt x \<in> set (split_lines (to_test_script s)) \<longrightarrow>
        (\<exists>a\<in>set (actions s). action_type a = ''click'' \<and> selector a = Some x \<and> x \<noteq> []))
   \<and> (\<forall>x y. fill_stmt x y \<in> set (split_lines (to_test_script s)) \<longrightarrow>
        (\<exists>a\<in>set (actions s).
            action_type a = ''input'' \<and> selector a \<noteq> None \<and> val a \<noteq> None))
   \<and> (\<forall>x. goto_stmt x \<in> set (split_lines (to_test_script s)) \<longrightarrow>
        x = url s
        \<or> (\<exists>a\<in>set (actions s).
              action_type a = ''navigation'' \<and> target a = Some x \<and> x \<noteq> []))
   \<and> (actions s = [a] \<and> action_type a = ''click'' \<and> selector a = None \<longrightarrow>
        split_lines (to_test_script s) =
          initial_lines s @ [wait_stmt, [], ''  // Take final screenshot for comparison'',
            screenshot_stmt (replay_id s), ''});'']
        \<and> goto_stmt (url s) \<in> set (split_lines (to_test_script s))
        \<and> screenshot_stmt (replay_id s) \<in> set (split_lines (to_test_script s))
        \<and> (\<forall>x. click_stmt x \<notin> set (split_lines (to_test_script s)))
        \<and> count_list (split_lines (to_test_script s)) wait_stmt = 1)"
proof -
  have lns: "split_lines (to_test_script s) = script_lines_of s"
    using assms by (rule split_lines_script)
  have struct: "split_lines (to_test_script s) =
     initial_lines s @ concat (map (\<lambda>a. render_action a []) (actions s))
       @ [''  // Take final screenshot for comparison'', screenshot_stmt (replay_id s), ''});'']"
    by (simp only: lns script_lines_of_structure)
  have nav: "initial_lines s ! 6 = goto_stmt (url s)" by (simp add: initial_lines_def)
  have shape: "\<exists>stmts. render_action a [] = stmts @ [wait_stmt, []]
        \<and> length stmts \<le> 1
        \<and> wait_stmt \<notin> set stmts
        \<and> (\<forall>x. click_stmt x \<in> set stmts \<longrightarrow> action_type a = ''click'' \<and> selector a \<noteq> None)
        \<and> (\<forall>x y. fill_stmt x y \<in> set stmts \<longrightarrow>
              action_type a = ''input'' \<and> selector a \<noteq> None \<and> val a \<noteq> None)
        \<and> (\<forall>x. goto_stmt x \<in> set stmts \<longrightarrow>
              action_type a = ''navigation'' \<and> target a \<noteq> None)
        \<and> (\<not> (action_type a = ''click'' \<and> selector a \<noteq> None)
             \<and> \<not> (action_type a = ''input'' \<and> selector a \<noteq> None \<and> val a \<noteq> None)
             \<and> \<not> (action_type a = ''navigation'' \<and> target a \<noteq> None)
             \<longrightarrow> stmts = [])"
  proof -
    from render_action_shape[of a] obtain stmts where st:
      "render_action a [] = stmts @ [wait_stmt, []]" "length stmts \<le> 1"
      "\<forall>x. click_stmt x \<in> set stmts \<longrightarrow> action_type a = ''click'' \<and> selector a \<noteq> None"
      "\<forall>x y. fill_stmt x y \<in> set stmts \<longrightarrow>
          action_type a = ''input'' \<and> selector a \<noteq> None \<and> val a \<noteq> None"
      "\<forall>x. goto_stmt x \<in> set stmts \<longrightarrow> action_type a = ''navigation'' \<and> target a \<noteq> None"
      "\<not> (action_type a = ''click'' \<and> selector a \<noteq> None)
        \<and> \<not> (action_type a = ''input'' \<and> selector a \<noteq> None \<and> val a \<noteq> None)
        \<and> \<not> (action_type a = ''navigation'' \<and> target a \<noteq> None)
        \<longrightarrow> stmts = []"
      by blast
    have "count_list (stmts @ [wait_stmt, []]) wait_stmt = 1"
      using count_wait_render_action[of a] st(1) by simp
    then have "count_list stmts wait_stmt = 0"
      by (simp add: count_list_append stmt_neq)
    then have "wait_stmt \<notin> set stmts" by (simp add: count_list_0_iff)
    with st show ?thesis by blast
  qed
  have e1: "action_type a = ''click'' \<and> selector a = Some x \<and> x \<noteq> [] \<longrightarrow>
        render_action a [] = [click_stmt x, wait_stmt, []]"
    by (rule impI) (rule render_action_emits)
  have e2: "action_type a = ''input'' \<and> selector a = Some x \<and> x \<noteq> []
        \<and> val a = Some y \<and> y \<noteq> [] \<longrightarrow>
        render_action a [] = [fill_stmt x y, wait_stmt, []]"
    by (rule impI) (rule render_action_emits)
  have e3: "action_type a = ''navigation'' \<and> target a = Some x \<and> x \<noteq> [] \<longrightarrow>
        render_action a [] = [goto_stmt x, wait_stmt, []]"
    by (rule impI) (rule render_action_emits)
  have waits: "count_list (split_lines (to_test_script s)) wait_stmt = length (actions s)"
    by (simp only: lns count_wait_script)
  have clicks: "\<forall>x. click_stmt x \<in> set (split_lines (to_test_script s)) \<longrightarrow>
        (\<exists>a\<in>set (actions s). action_type a = ''click'' \<and> selector a = Some x \<and> x \<noteq> [])"
    unfolding lns by (intro allI impI) (rule click_in_script)
  have fills: "\<forall>x y. fill_stmt x y \<in> set (split_lines (to_test_script s)) \<longrightarrow>
        (\<exists>a\<in>set (actions s).
            action_type a = ''input'' \<and> selector a \<noteq> None \<and> val a \<noteq> None)"
    unfolding lns by (intro allI impI) (rule fill_in_script)
  have gotos: "\<forall>x. goto_stmt x \<in> set (split_lines (to_test_script s)) \<longrightarrow>
        x = url s
        \<or> (\<exists>a\<in>set (actions s).
              action_type a = ''navigation'' \<and> target a = Some x \<and> x \<noteq> [])"
    unfolding lns by (intro allI impI) (rule goto_in_script)
  have single: "actions s = [a] \<and> action_type a = ''click'' \<and> selector a = None \<longrightarrow>
        split_lines (to_test_script s) =
          initial_lines s @ [wait_stmt, [], ''  // Take final screenshot for comparison'',
            screenshot_stmt (replay_id s), ''});'']
        \<and> goto_stmt (url s) \<in> set (split_lines (to_test_script s))
        \<and> screenshot_stmt (replay_id s) \<in> set (split_lines (to_test_script s))
        \<and> (\<forall>x. click_stmt x \<notin> set (split_lines (to_test_script s)))
        \<and> count_list (split_lines (to_test_script s)) wait_stmt = 1"
  proof
    assume h: "actions s = [a] \<and> action_type a = ''click'' \<and> selector a = None"
    then have l: "split_lines (to_test_script s) =
          initial_lines s @ [wait_stmt, [], ''  // Take final screenshot for comparison'',
            screenshot_stmt (replay_id s), ''});'']"
      by (simp add: lns null_click_lines)
    have g: "goto_stmt (url s) \<in> set (initial_lines s)" by (simp add: initial_lines_def)
    have c: "\<forall>x. click_stmt x \<notin> set (split_lines (to_test_script s))"
    proof (intro allI notI)
      fix x assume "click_stmt x \<in> set (split_lines (to_test_script s))"
      with clicks obtain b where "b \<in> set (actions s)" "selector b = Some x" by blast
      with h show False by simp
    qed
    from h waits have "count_list (split_lines (to_test_script s)) wait_stmt = 1" by simp
    with l g c show "split_lines (to_test_script s) =
          initial_lines s @ [wait_stmt, [], ''  // Take final screenshot for comparison'',
            screenshot_stmt (replay_id s), ''});'']
        \<and> goto_stmt (url s) \<in> set (split_lines (to_test_script s))
        \<and> screenshot_stmt (replay_id s) \<in> set (split_lines (to_test_script s))
        \<and> (\<forall>x. click_stmt x \<notin> set (split_lines (to_test_script s)))
        \<and> count_list (split_lines (to_test_script s)) wait_stmt = 1"
      by simp
  qed
  show ?thesis
    by (intro conjI) (rule struct nav shape e1 e2 e3 waits clicks fills gotos single)+
qed

theorem render_spec_witness:
  "no_line_breaks null_click_session
   \<and> actions null_click_session = [mk_action ''click'' None None None]
   \<and> action_type (mk_action ''click'' None None None) = ''click''
   \<and> selector (mk_action ''click'' None None None) = None
   \<and> split_lines (to_test_script null_click_session) =
       [''import { test, expect } from '@playwright/test';'',
        '''',
        ''test('replay-abc123de', async ({ page }) => {'',
        ''  // Original session duration: 45000ms'',
        ''  // URL: https://example.com/app'',
        '''',
        ''  await page.goto('https://example.com/app');'',
        '''',
        ''  await page.waitForTimeout(100);'',
        '''',
        ''  // Take final screenshot for comparison'',
        ''  await page.screenshot({ path: 'screenshots/replay-abc123de.png' });'',
        ''});'']
   \<and> count_list (split_lines (to_test_script null_click_session)) wait_stmt = 1
   \<and> click_stmt ''#go'' \<notin> set (split_lines (to_test_script null_click_session))
   \<and> no_line_breaks four_action_session
   \<and> split_lines (to_test_script four_action_session) =
       [''import { test, expect } from '@playwright/test';'',
        '''',
        ''test('replay-abc123de', async ({ page }) => {'',
        ''  // Original session duration: 45000ms'',
        ''  // URL: https://example.com/app'',
        '''',
        ''  await page.goto('https://example.com/app');'',
        '''',
        ''  await page.click('#go');'', ''  await page.waitForTimeout(100);'', '''',
        ''  await page.fill('#q', 'x');'', ''  await page.waitForTimeout(100);'', '''',
        ''  await page.goto('/next');'', ''  await page.waitForTimeout(100);'', '''',
        ''  await page.waitForTimeout(100);'', '''',
        ''  // Take final screenshot for comparison'',
        ''  await page.screenshot({ path: 'screenshots/replay-abc123de.png' });'',
        ''});'']
   \<and> count_list (split_lines (to_test_script four_action_session)) wait_stmt = 4"
proof -
  have n1: "no_line_breaks null_click_session"
    by (simp add: no_line_breaks_def single_line_def null_click_session_def mk_action_def)
  have n4: "no_line_breaks four_action_session"
    by (simp add: no_line_breaks_def single_line_def four_action_session_def mk_action_def)
  have h: "actions null_click_session = [mk_action ''click'' None None None]
      \<and> action_type (mk_action ''click'' None None None) = ''click''
      \<and> selector (mk_action ''click'' None None None) = None"
    by (simp add: null_click_session_def mk_action_def)
  with render_spec[OF n1, of "mk_action ''click'' None None None"]
  have a: "split_lines (to_test_script null_click_session) =
        initial_lines null_click_session
          @ [wait_stmt, [], ''  // Take final screenshot for comparison'',
             screenshot_stmt (replay_id null_click_session), ''});'']"
    and b: "count_list (split_lines (to_test_script null_click_session)) wait_stmt = 1"
    and c: "\<forall>x. click_stmt x \<notin> set (split_lines (to_test_script null_click_session))"
    by blast+
  have d: "initial_lines null_click_session @ [wait_stmt, [],
        ''  // Take final screenshot for comparison'',
        screenshot_stmt (replay_id null_click_session), ''});''] =
       [''import { test, expect } from '@playwright/test';'',
        '''',
        ''test('replay-abc123de', async ({ page }) => {'',
        ''  // Original session duration: 45000ms'',
        ''  // URL: https://example.com/app'',
        '''',
        ''  await page.goto('https://example.com/app');'',
        '''',
        ''  await page.waitForTimeout(100);'',
        '''',
        ''  // Take final screenshot for comparison'',
        ''  await page.screenshot({ path: 'screenshots/replay-abc123de.png' });'',
        ''});'']"
    by (simp add: initial_lines_def null_click_session_def wait_stmt_def goto_stmt_def
        screenshot_stmt_def str_int_def str_nat.simps digit_char_def)
  from a d have a': "split_lines (to_test_script null_click_session) =
       [''import { test, expect } from '@playwright/test';'',
        '''',
        ''test('replay-abc123de', async ({ page }) => {'',
        ''  // Original session duration: 45000ms'',
        ''  // URL: https://example.com/app'',
        '''',
        ''  await page.goto('https://example.com/app');'',
        '''',
        ''  await page.waitForTimeout(100);'',
        '''',
        ''  // Take final screenshot for comparison'',
        ''  await page.screenshot({ path: 'screenshots/replay-abc123de.png' });'',
        ''});'']"
    by (rule trans)
  from c have g: "click_stmt ''#go'' \<notin> set (split_lines (to_test_script null_click_session))"
    by blast
  from render_spec[OF n4]
  have e: "split_lines (to_test_script four_action_session) =
        initial_lines four_action_session
          @ concat (map (\<lambda>a. render_action a []) (actions four_action_session))
          @ [''  // Take final screenshot for comparison'',
             screenshot_stmt (replay_id four_action_session), ''});'']"
    and f: "count_list (split_lines (to_test_script four_action_session)) wait_stmt
        = length (actions four_action_session)"
    by blast+
  have e': "initial_lines four_action_session
          @ concat (map (\<lambda>a. render_action a []) (actions four_action_session))
          @ [''  // Take final screenshot for comparison'',
             screenshot_stmt (replay_id four_action_session), ''});''] =
       [''import { test, expect } from '@playwright/test';'',
        '''',
        ''test('replay-abc123de', async ({ page }) => {'',
        ''  // Original session duration: 45000ms'',
        ''  // URL: https://example.com/app'',
        '''',
        ''  await page.goto('https://example.com/app');'',
        '''',
        ''  await page.click('#go');'', ''  await page.waitForTimeout(100);'', '''',
        ''  await page.fill('#q', 'x');'', ''  await page.waitForTimeout(100);'', '''',
        ''  await page.goto('/next');'', ''  await page.waitForTimeout(100);'', '''',
        ''  await page.waitForTimeout(100);'', '''',
        ''  // Take final screenshot for comparison'',
        ''  await page.screenshot({ path: 'screenshots/replay-abc123de.png' });'',
        ''});'']"
    by (simp add: initial_lines_def four_action_session_def mk_action_def render_action_def
        click_stmt_def fill_stmt_def goto_stmt_def wait_stmt_def screenshot_stmt_def
        str_int_def str_nat.simps digit_char_def)
  from e e' have e'': "split_lines (to_test_script four_action_session) =
       [''import { test, expect } from '@playwright/test';'',
        '''',
        ''test('replay-abc123de', async ({ page }) => {'',
        ''  // Original session duration: 45000ms'',
        ''  // URL: https://example.com/app'',
        '''',
        ''  await page.goto('https://example.com/app');'',
        '''',
        ''  await page.click('#go');'', ''  await page.waitForTimeout(100);'', '''',
        ''  await page.fill('#q', 'x');'', ''  await page.waitForTimeout(100);'', '''',
        ''  await page.goto('/next');'', ''  await page.waitForTimeout(100);'', '''',
        ''  await page.waitForTimeout(100);'', '''',
        ''  // Take final screenshot for comparison'',
        ''  await page.screenshot({ path: 'screenshots/replay-abc123de.png' });'',
        ''});'']"
    by (rule trans)
  from f have f': "count_list (split_lines (to_test_script four_action_session)) wait_stmt = 4"
    by (simp add: four_action_session_def)
  note h1 = conjunct1[OF h] and h2 = conjunct1[OF conjunct2[OF h]]
    and h3 = conjunct2[OF conjunct2[OF h]]
  show ?thesis by (intro conjI) (rule n1 h1 h2 h3 a' b g n4 e'' f')+
qed


section \<open>Properties of the coverage aggregator\<close>

lemma selectors_loop_append:
  "selectors_loop as acc =
     acc @ concat (map (\<lambda>a. case selector a of
                               Some sel \<Rightarrow> if sel \<noteq> [] then [sel] else []
                             | None \<Rightarrow> []) as)"
  by (induction as arbitrary: acc) (auto split: option.splits)

lemma set_selectors_loop:
  "set (selectors_loop as []) = {sel. sel \<noteq> [] \<and> (\<exists>a\<in>set as. selector a = Some sel)}"
  by (auto simp: selectors_loop_append split: option.splits if_splits)

lemma coverage_loop_result:
  assumes "\<forall>s\<in>set ss. \<exists>n. browser_name (metadata s) = Inr n"
  shows "\<exists>bs. map (\<lambda>s. browser_name (metadata s)) ss = map Inr bs
     \<and> coverage_loop ss (us, sels, bs0) =
         Inr (us @ map url ss,
              sels @ concat (map (\<lambda>s. selectors_loop (actions s) []) ss),
              bs0 @ bs)"
  using assms
proof (induction ss arbitrary: us sels bs0)
  case Nil
  then show ?case by simp
next
  case (Cons s ss)
  from Cons.prems obtain n where n: "browser_name (metadata s) = Inr n" by auto
  from Cons.prems have "\<forall>s\<in>set ss. \<exists>n. browser_name (metadata s) = Inr n" by simp
  from Cons.IH[OF this, of "us @ [url s]" "selectors_loop (actions s) sels" "bs0 @ [n]"]
  obtain bs where bs: "map (\<lambda>s. browser_name (metadata s)) ss = map Inr bs"
    "coverage_loop ss (us @ [url s], selectors_loop (actions s) sels, bs0 @ [n]) =
       Inr ((us @ [url s]) @ map url ss,
            selectors_loop (actions s) sels
              @ concat (map (\<lambda>s. selectors_loop (actions s) []) ss),
            (bs0 @ [n]) @ bs)"
    by blast
  have "selectors_loop (actions s) sels = sels @ selectors_loop (actions s) []"
    by (simp add: selectors_loop_append)
  with n bs show ?case by (intro exI[of _ "n # bs"]) simp
qed

lemma coverage_loop_error:
  "browser_name (metadata s) = Inl e \<Longrightarrow> coverage_loop [s] acc = Inl e"
  by (cases acc) simp

lemma map_of_counter_add:
  "map_of (counter_add (=) k c) k' =
     (if k' = k then Some (case map_of c k of None \<Rightarrow> 1 | Some n \<Rightarrow> Suc n) else map_of c k')"
  by (induction c) auto

lemma map_of_foldl_counter:
  "map_of (foldl (\<lambda>c k. counter_add (=) k c) c0 xs) k =
     (case map_of c0 k of
        None \<Rightarrow> if count_list xs k = 0 then None else Some (count_list xs k)
      | Some n \<Rightarrow> Some (n + count_list xs k))"
proof (induction xs arbitrary: c0)
  case Nil
  then show ?case by (simp split: option.splits)
next
  case (Cons x xs)
  show ?case
    by (simp add: Cons.IH map_of_counter_add split: option.splits)
qed

lemma map_of_Counter:
  "map_of (Counter (=) xs) k = (if count_list xs k = 0 then None else Some (count_list xs k))"
  by (simp add: Counter_def map_of_foldl_counter)

lemma keys_counter_add:
  "map fst (counter_add (=) k c) = (if k \<in> fst ` set c then map fst c else map fst c @ [k])"
  by (induction c) (force simp: image_iff)+

lemma keys_counter_set: "fst ` set (counter_add (=) k c) = insert k (fst ` set c)"
  using arg_cong[OF keys_counter_add[of k c], of set] by (auto simp: image_iff)

lemma distinct_foldl_counter:
  "distinct (map fst c0) \<Longrightarrow> distinct (map fst (foldl (\<lambda>c k. counter_add (=) k c) c0 xs))"
proof (induction xs arbitrary: c0)
  case Nil
  then show ?case by simp
next
  case (Cons x xs)
  have "distinct (map fst (counter_add (=) x c0))"
    using Cons.prems by (auto simp: keys_counter_add)
  then show ?case by (simp add: Cons.IH)
qed

lemma distinct_Counter: "distinct (map fst (Counter (=) xs))"
  by (simp add: Counter_def distinct_foldl_counter)

lemma key_eq_name_ok: "name_ok x \<Longrightarrow> name_ok y \<Longrightarrow> key_eq x y = (x = y)"
  by (cases x; cases y) simp_all

lemma counter_add_cong:
  "\<forall>k'\<in>fst ` set c. eq k' k = (k' = k) \<Longrightarrow> counter_add eq k c = counter_add (=) k c"
  by (induction c) auto

lemma foldl_counter_cong:
  assumes "\<forall>x\<in>A. \<forall>y\<in>A. eq x y = (x = y)" and "set xs \<subseteq> A" and "fst ` set c0 \<subseteq> A"
  shows "foldl (\<lambda>c k. counter_add eq k c) c0 xs = foldl (\<lambda>c k. counter_add (=) k c) c0 xs"
  using assms(2,3)
proof (induction xs arbitrary: c0)
  case Nil
  then show ?case by simp
next
  case (Cons x xs)
  have a: "counter_add eq x c0 = counter_add (=) x c0"
    using Cons.prems assms(1) by (intro counter_add_cong) auto
  have "fst ` set (counter_add (=) x c0) \<subseteq> A"
    using Cons.prems by (simp add: keys_counter_set)
  moreover from Cons.prems have "set xs \<subseteq> A" by simp
  ultimately have "foldl (\<lambda>c k. counter_add eq k c) (counter_add (=) x c0) xs
      = foldl (\<lambda>c k. counter_add (=) k c) (counter_add (=) x c0) xs"
    using Cons.IH by blast
  with a show ?case by simp
qed

lemma Counter_key_eq:
  assumes "list_all name_ok bs"
  shows "Counter key_eq bs = Counter (=) bs"
proof -
  have "\<forall>x\<in>set bs. \<forall>y\<in>set bs. key_eq x y = (x = y)"
    using assms by (auto simp: list_all_iff key_eq_name_ok)
  then show ?thesis
    unfolding Counter_def by (rule foldl_counter_cong) simp_all
qed

lemma name_ok_hashable: "name_ok x \<Longrightarrow> hashable x"
  by (cases x) simp_all

lemma count_list_map:
  "count_list (map f xs) y = length (filter (\<lambda>x. f x = y) xs)"
  by (induction xs) auto

lemma count_list_names:
  fixes f :: "'s \<Rightarrow> 'e + 'b"
  assumes "map f ss = map Inr bs"
  shows "count_list bs n = length (filter (\<lambda>s. f s = Inr n) ss)"
proof -
  have "count_list (map f ss) (Inr n) = count_list (map Inr bs) (Inr n :: 'e + 'b)"
    by (simp only: assms)
  also have "\<dots> = count_list bs n"
    by (induction bs) auto
  finally have "count_list bs n = count_list (map f ss) (Inr n)"
    by simp
  then show ?thesis by (simp only: count_list_map)
qed

lemma set_all_selectors:
  "set (concat (map (\<lambda>s. selectors_loop (actions s) []) ss)) =
     {sel. sel \<noteq> [] \<and> (\<exists>s\<in>set ss. \<exists>a\<in>set (actions s). selector a = Some sel)}"
  by (auto simp: set_selectors_loop)

lemmas coverage_defs =
  analyze_coverage_def browser_name_def dict_get_def Counter_def cov_session_def mk_action_def

text \<open>
  C4, as stated: \<^verbatim>\<open>unique_selectors\<close> would count every non-null selector value, and
  the aggregator would return a report for every collection. A selector that is the
  empty string is not null and is not counted (\<^verbatim>\<open>if action.selector:\<close> skips it), and a
  session whose metadata holds \<^verbatim>\<open>browser: None\<close> makes the aggregator raise
  \<^verbatim>\<open>AttributeError\<close>.
\<close>

theorem coverage_counterexample:
  "sessions empty_selector_session = [cov_session ''X'' [''''] []]
   \<and> map selector (actions (cov_session ''X'' [''''] [])) = [Some '''']
   \<and> card (set (List.map_filter selector (actions (cov_session ''X'' [''''] [])))) = 1
   \<and> map_sum id unique_selectors (analyze_coverage empty_selector_session) = Inr 0
   \<and> sessions null_browser_session = [cov_session ''X'' [] [(''browser'', PNone)]]
   \<and> map_of (metadata (cov_session ''X'' [] [(''browser'', PNone)])) ''browser'' = Some PNone
   \<and> analyze_coverage null_browser_session = Inl AttributeError"
  by (simp add: empty_selector_session_def null_browser_session_def coverage_defs
      List.map_filter_def)

text \<open>
  C4, amended. For every collection of sessions in which each session's metadata has no
  \<^verbatim>\<open>browser\<close> entry or one that is a mapping whose \<^verbatim>\<open>name\<close> is absent, null or a
  string, the aggregator returns a report with \<^verbatim>\<open>total_sessions\<close> the length of the
  collection, \<^verbatim>\<open>unique_urls\<close> the number of distinct urls, \<^verbatim>\<open>unique_selectors\<close> the
  number of distinct selector values that are neither null nor empty, over all actions
  of all sessions, \<^verbatim>\<open>total_actions\<close> and \<^verbatim>\<open>total_errors\<close> the sums of the
  per-session counts, and url and browser distributions that list each key once with
  the number of sessions that have it. For three sessions with urls X, X, Y and
  selectors [a], [a, b], []: 2 urls, 2 selectors, 3 actions.
\<close>

theorem coverage_spec:
  "((\<forall>s\<in>set (sessions self). \<exists>n. browser_name (metadata s) = Inr n \<and> name_ok n) \<longrightarrow>
     (\<exists>r. analyze_coverage self = Inr r
        \<and> total_sessions r = length (sessions self)
        \<and> unique_urls r = card (url ` set (sessions self))
        \<and> unique_selectors r =
            card {sel. sel \<noteq> [] \<and>
                    (\<exists>s\<in>set (sessions self). \<exists>a\<in>set (actions s). selector a = Some sel)}
        \<and> total_actions r = (\<Sum>s\<leftarrow>sessions self. length (actions s))
        \<and> total_errors r = (\<Sum>s\<leftarrow>sessions self. length (errors s))
        \<and> distinct (map fst (url_distribution r))
        \<and> (\<forall>u. map_of (url_distribution r) u =
              (let c = length (filter (\<lambda>s. url s = u) (sessions self))
               in if c = 0 then None else Some c))
        \<and> distinct (map fst (browser_distribution r))
        \<and> (\<forall>n. map_of (browser_distribution r) n =
              (let c = length (filter (\<lambda>s. browser_name (metadata s) = Inr n) (sessions self))
               in if c = 0 then None else Some c))))
   \<and> map url (sessions three_sessions) = [''X'', ''X'', ''Y'']
   \<and> map (\<lambda>s. map selector (actions s)) (sessions three_sessions)
        = [[Some ''a''], [Some ''a'', Some ''b''], []]
   \<and> map_sum id (\<lambda>r. (unique_urls r, unique_selectors r, total_actions r))
        (analyze_coverage three_sessions) = Inr (2, 2, 3)"
proof -
  have general: "\<exists>r. analyze_coverage self = Inr r
        \<and> total_sessions r = length (sessions self)
        \<and> unique_urls r = card (url ` set (sessions self))
        \<and> unique_selectors r =
            card {sel. sel \<noteq> [] \<and>
                    (\<exists>s\<in>set (sessions self). \<exists>a\<in>set (actions s). selector a = Some sel)}
        \<and> total_actions r = (\<Sum>s\<leftarrow>sessions self. length (actions s))
        \<and> total_errors r = (\<Sum>s\<leftarrow>sessions self. length (errors s))
        \<and> distinct (map fst (url_distribution r))
        \<and> (\<forall>u. map_of (url_distribution r) u =
              (let c = length (filter (\<lambda>s. url s = u) (sessions self))
               in if c = 0 then None else Some c))
        \<and> distinct (map fst (browser_distribution r))
        \<and> (\<forall>n. map_of (browser_distribution r) n =
              (let c = length (filter (\<lambda>s. browser_name (metadata s) = Inr n) (sessions self))
               in if c = 0 then None else Some c))"
    if ok: "\<forall>s\<in>set (sessions self). \<exists>n. browser_name (metadata s) = Inr n \<and> name_ok n"
  proof -
    let ?ss = "sessions self"
    let ?sels = "concat (map (\<lambda>s. selectors_loop (actions s) []) ?ss)"
    from ok have "\<forall>s\<in>set ?ss. \<exists>n. browser_name (metadata s) = Inr n" by blast
    from coverage_loop_result[OF this, of "[]" "[]" "[]"]
    obtain bs where bs: "map (\<lambda>s. browser_name (metadata s)) ?ss = map Inr bs"
      and loop: "coverage_loop ?ss ([], [], []) = Inr (map url ?ss, ?sels, bs)"
      by auto
    have names: "list_all name_ok bs"
    proof -
      have "name_ok b" if "b \<in> set bs" for b
      proof -
        from that have "Inr b \<in> set (map (\<lambda>s. browser_name (metadata s)) ?ss)"
          by (simp add: bs)
        then obtain s where "s \<in> set ?ss" "browser_name (metadata s) = Inr b" by auto
        with ok show ?thesis by fastforce
      qed
      then show ?thesis by (simp add: list_all_iff)
    qed
    then have hash: "list_all hashable bs"
      by (auto simp: list_all_iff name_ok_hashable)
    let ?r = "\<lparr> total_sessions = length ?ss,
        unique_urls = card (set (map url ?ss)),
        unique_selectors = card (set ?sels),
        url_distribution = Counter (=) (map url ?ss),
        browser_distribution = Counter key_eq bs,
        total_actions = sum_list (map (\<lambda>s. length (actions s)) ?ss),
        total_errors = sum_list (map (\<lambda>s. length (errors s)) ?ss) \<rparr>"
    have run: "analyze_coverage self = Inr ?r"
      by (simp add: analyze_coverage_def loop hash)
    have u: "\<forall>u. map_of (url_distribution ?r) u =
        (let c = length (filter (\<lambda>s. url s = u) ?ss) in if c = 0 then None else Some c)"
      by (simp add: map_of_Counter count_list_map Let_def)
    have b: "\<forall>n. map_of (browser_distribution ?r) n =
        (let c = length (filter (\<lambda>s. browser_name (metadata s) = Inr n) ?ss)
         in if c = 0 then None else Some c)"
      by (simp add: Counter_key_eq[OF names] map_of_Counter count_list_names[OF bs] Let_def)
    have d: "distinct (map fst (url_distribution ?r))"
      "distinct (map fst (browser_distribution ?r))"
      by (simp_all add: Counter_key_eq[OF names] distinct_Counter)
    have "unique_selectors ?r = card (set ?sels)" by simp
    then have s: "unique_selectors ?r =
        card {sel. sel \<noteq> [] \<and> (\<exists>s\<in>set ?ss. \<exists>a\<in>set (actions s). selector a = Some sel)}"
      by (simp only: set_all_selectors)
    have "unique_urls ?r = card (url ` set ?ss)" by simp
    with run u b d s show ?thesis
      by (intro exI[of _ ?r]) simp
  qed
  have example: "map url (sessions three_sessions) = [''X'', ''X'', ''Y'']
      \<and> map (\<lambda>s. map selector (actions s)) (sessions three_sessions)
          = [[Some ''a''], [Some ''a'', Some ''b''], []]
      \<and> map_sum id (\<lambda>r. (unique_urls r, unique_selectors r, total_actions r))
          (analyze_coverage three_sessions) = Inr (2, 2, 3)"
    by (simp add: three_sessions_def coverage_defs)
  from general example show ?thesis by blast
qed

theorem coverage_spec_witness:
  "(\<exists>r. analyze_coverage three_sessions = Inr r
      \<and> total_sessions r = 3
      \<and> unique_urls r = card (url ` set (sessions three_sessions))
      \<and> map_of (url_distribution r) ''X'' = Some 2
      \<and> map_of (url_distribution r) ''Y'' = Some 1
      \<and> map_of (url_distribution r) ''Z'' = None
      \<and> map_of (browser_distribution r) (PStr ''Chrome'') = Some 1
      \<and> map_of (browser_distribution r) PNone = Some 2)
   \<and> map_sum id (\<lambda>r. (unique_urls r, unique_selectors r, total_actions r))
        (analyze_coverage three_sessions) = Inr (2, 2, 3)"
proof -
  have names: "map (\<lambda>s. browser_name (metadata s)) (sessions three_sessions)
      = [Inr (PStr ''Chrome''), Inr PNone, Inr PNone]"
    by (simp add: three_sessions_def coverage_defs)
  have h: "\<forall>s\<in>set (sessions three_sessions). \<exists>n. browser_name (metadata s) = Inr n \<and> name_ok n"
    by (simp add: three_sessions_def coverage_defs)
  with coverage_spec[of three_sessions]
  obtain r where r: "analyze_coverage three_sessions = Inr r"
    "total_sessions r = length (sessions three_sessions)"
    "unique_urls r = card (url ` set (sessions three_sessions))"
    "\<forall>u. map_of (url_distribution r) u =
        (let c = length (filter (\<lambda>s. url s = u) (sessions three_sessions))
         in if c = 0 then None else Some c)"
    "\<forall>n. map_of (browser_distribution r) n =
        (let c = length (filter (\<lambda>s. browser_name (metadata s) = Inr n)
                   (sessions three_sessions))
         in if c = 0 then None else Some c)"
    by blast
  have urls: "map url (sessions three_sessions) = [''X'', ''X'', ''Y'']"
    by (simp add: three_sessions_def coverage_defs)
  have f: "length (filter (\<lambda>s. f s = y) xs) = count_list (map f xs) y" for f :: "'x \<Rightarrow> 'y"
    and y xs
    by (simp add: count_list_map)
  from r(4) urls have u: "map_of (url_distribution r) ''X'' = Some 2"
    "map_of (url_distribution r) ''Y'' = Some 1" "map_of (url_distribution r) ''Z'' = None"
    by (simp_all add: f)
  from r(5) names have b: "map_of (browser_distribution r) (PStr ''Chrome'') = Some 1"
    "map_of (browser_distribution r) PNone = Some 2"
    by (simp_all add: f)
  from r(2) have t: "total_sessions r = 3" by (simp add: three_sessions_def)
  from coverage_spec[of three_sessions]
  have e: "map_sum id (\<lambda>r. (unique_urls r, unique_selectors r, total_actions r))
        (analyze_coverage three_sessions) = Inr (2, 2, 3)"
    by blast
  from r(1) t r(3) u b have "\<exists>r. analyze_coverage three_sessions = Inr r
      \<and> total_sessions r = 3
      \<and> unique_urls r = card (url ` set (sessions three_sessions))
      \<and> map_of (url_distribution r) ''X'' = Some 2
      \<and> map_of (url_distribution r) ''Y'' = Some 1
      \<and> map_of (url_distribution r) ''Z'' = None
      \<and> map_of (browser_distribution r) (PStr ''Chrome'') = Some 1
      \<and> map_of (browser_distribution r) PNone = Some 2"
    by (intro exI[of _ r]) simp
  then show ?thesis using e by (intro conjI)
qed


section \<open>Properties on the object store\<close>

lemma valid_store_lt: "valid_store \<sigma> \<Longrightarrow> cells \<sigma> a = Some ob \<Longrightarrow> a < fresh \<sigma>"
  by (rule ccontr) (simp add: valid_store_def not_less)

lemma get_session_lt: "valid_store \<sigma> \<Longrightarrow> get_session \<sigma> a = Some s \<Longrightarrow> a < fresh \<sigma>"
  by (auto simp: get_session_def split: option.splits obj.splits dest: valid_store_lt)

lemma get_list_lt: "valid_store \<sigma> \<Longrightarrow> get_list \<sigma> a = Some rs \<Longrightarrow> a < fresh \<sigma>"
  by (auto simp: get_list_def split: option.splits obj.splits dest: valid_store_lt)

lemma deref_all_pairs:
  "\<forall>rs\<in>set ps. get_session \<sigma> (fst rs) = Some (snd rs) \<Longrightarrow>
   deref_all \<sigma> (map fst ps) = Some ps"
proof (induction ps)
  case Nil
  then show ?case by (simp add: deref_all_def)
next
  case (Cons p ps)
  then have "deref_all \<sigma> (map fst ps) = Some ps" by simp
  then obtain ss where "those (map (get_session \<sigma>) (map fst ps)) = Some ss"
    "zip (map fst ps) ss = ps"
    by (auto simp: deref_all_def)
  with Cons.prems show ?case by (simp add: deref_all_def)
qed

lemma deref_all_Some:
  "deref_all \<sigma> refs = Some objs \<Longrightarrow>
   map fst objs = refs \<and> (\<forall>rs\<in>set objs. get_session \<sigma> (fst rs) = Some (snd rs))"
proof (induction refs arbitrary: objs)
  case Nil
  then show ?case by (auto simp: deref_all_def)
next
  case (Cons r refs)
  from Cons.prems obtain s ss where s: "get_session \<sigma> r = Some s"
    and ss: "those (map (get_session \<sigma>) refs) = Some ss"
    and objs: "objs = (r, s) # zip refs ss"
    by (auto simp: deref_all_def split: option.splits)
  from ss have "deref_all \<sigma> refs = Some (zip refs ss)" by (simp add: deref_all_def)
  from Cons.IH[OF this] s objs show ?case by simp
qed

lemma map_sort_key: "map g (sort_key (\<lambda>x. f (g x)) xs) = sort_key f (map g xs)"
proof (induction xs)
  case Nil
  then show ?case by simp
next
  case (Cons x xs)
  have "map g (insort_key (\<lambda>x. f (g x)) y ys) = insort_key f (g y) (map g ys)" for y ys
    by (induction ys) simp_all
  with Cons show ?case by simp
qed

lemma map_py_sort_reverse:
  "map g (py_sort_reverse (\<lambda>x. f (g x)) xs) = py_sort_reverse f (map g xs)"
  by (simp add: py_sort_reverse_def rev_map[symmetric] map_sort_key)

lemma set_py_sort_reverse: "set (py_sort_reverse key xs) = set xs"
  by (simp add: py_sort_reverse_def)

lemma map_py_slice_to: "map g (py_slice_to stop xs) = py_slice_to stop (map g xs)"
  by (simp add: py_slice_to_def take_map)

lemma set_py_slice_to: "set (py_slice_to stop xs) \<subseteq> set xs"
  by (auto simp: py_slice_to_def dest: in_set_takeD)

lemma select_in_store_result:
  assumes v: "valid_store \<sigma>"
    and l: "get_list \<sigma> self_sessions = Some refs"
    and d: "deref_all \<sigma> refs = Some objs"
    and kept_def: "kept = filter (\<lambda>rs. duration (snd rs) \<ge> min_duration) objs"
    and ranked_def: "ranked =
     (if prioritize_errors
      then py_sort_reverse (\<lambda>rs. (length (errors (snd rs)), duration (snd rs))) kept
      else py_sort_reverse (\<lambda>rs. duration (snd rs)) kept)"
  shows "select_in_store self_sessions max_sessions prioritize_errors min_duration \<sigma> =
     Some (Suc (fresh \<sigma>),
           \<sigma>\<lparr>cells := (cells \<sigma>)
                  (fresh \<sigma> \<mapsto> SessionList (map fst ranked),
                   Suc (fresh \<sigma>) \<mapsto> SessionList (map fst (py_slice_to max_sessions ranked))),
             fresh := Suc (Suc (fresh \<sigma>))\<rparr>)"
proof -
  let ?\<sigma>1 = "\<sigma>\<lparr>cells := (cells \<sigma>)(fresh \<sigma> \<mapsto> SessionList (map fst kept)),
               fresh := Suc (fresh \<sigma>)\<rparr>"
  from deref_all_Some[OF d]
  have objs: "\<forall>rs\<in>set objs. get_session \<sigma> (fst rs) = Some (snd rs)" by simp
  have "\<forall>rs\<in>set kept. get_session ?\<sigma>1 (fst rs) = Some (snd rs)"
  proof
    fix rs assume "rs \<in> set kept"
    with objs have g: "get_session \<sigma> (fst rs) = Some (snd rs)" by (simp add: kept_def)
    with v have "fst rs < fresh \<sigma>" by (rule get_session_lt)
    with g show "get_session ?\<sigma>1 (fst rs) = Some (snd rs)" by (simp add: get_session_def)
  qed
  then have d1: "deref_all ?\<sigma>1 (map fst kept) = Some kept" by (rule deref_all_pairs)
  have l1: "get_list ?\<sigma>1 (fresh \<sigma>) = Some (map fst kept)" by (simp add: get_list_def)
  have n1: "new_obj (SessionList (map fst kept)) \<sigma> = (fresh \<sigma>, ?\<sigma>1)"
    by (simp add: new_obj_def)
  let ?\<sigma>2 = "put_obj (fresh \<sigma>) (SessionList (map fst ranked)) ?\<sigma>1"
  have l2: "get_list ?\<sigma>2 (fresh \<sigma>) = Some (map fst ranked)"
    by (simp add: get_list_def put_obj_def)
  have n2: "new_obj (SessionList (py_slice_to max_sessions (map fst ranked))) ?\<sigma>2 =
      (Suc (fresh \<sigma>),
       \<sigma>\<lparr>cells := (cells \<sigma>)
              (fresh \<sigma> \<mapsto> SessionList (map fst ranked),
               Suc (fresh \<sigma>) \<mapsto> SessionList (map fst (py_slice_to max_sessions ranked))),
         fresh := Suc (Suc (fresh \<sigma>))\<rparr>)"
    by (simp add: new_obj_def put_obj_def map_py_slice_to)
  show ?thesis
    unfolding select_in_store_def
    by (simp only: l d Option.bind.simps kept_def[symmetric] n1 Let_def prod.case l1 d1
        ranked_def[symmetric] if_distrib[of "\<lambda>xs. map fst xs", symmetric] l2 n2)
qed

text \<open>
  C9. Called on a store in which \<^verbatim>\<open>self.sessions\<close> is a list of references to
  sessions, the selector returns a new list and leaves every object that existed
  before the call as it was: the accumulated collection holds the same references in
  the same order, and each session they point to is unchanged. The sessions the
  returned list points to are those the selection on values gives.
\<close>

theorem select_leaves_state:
  assumes "valid_store \<sigma>"
    and "get_list \<sigma> self_sessions = Some refs"
    and "deref_all \<sigma> refs = Some objs"
  shows "\<exists>result \<sigma>' selected.
      select_in_store self_sessions max_sessions prioritize_errors min_duration \<sigma>
        = Some (result, \<sigma>')
    \<and> (\<forall>a. a < fresh \<sigma> \<longrightarrow> cells \<sigma>' a = cells \<sigma> a)
    \<and> get_list \<sigma>' self_sessions = Some refs
    \<and> deref_all \<sigma>' refs = Some objs
    \<and> Option.bind (get_list \<sigma>' result) (deref_all \<sigma>') = Some selected
    \<and> map snd selected =
        select_sessions_for_testing \<lparr>sessions = map snd objs\<rparr>
          max_sessions prioritize_errors min_duration
    \<and> valid_store \<sigma>'"
proof -
  define kept where "kept = filter (\<lambda>rs. duration (snd rs) \<ge> min_duration) objs"
  define ranked where "ranked =
     (if prioritize_errors
      then py_sort_reverse (\<lambda>rs. (length (errors (snd rs)), duration (snd rs))) kept
      else py_sort_reverse (\<lambda>rs. duration (snd rs)) kept)"
  define \<sigma>' where "\<sigma>' = \<sigma>\<lparr>cells := (cells \<sigma>)
      (fresh \<sigma> \<mapsto> SessionList (map fst ranked),
       Suc (fresh \<sigma>) \<mapsto> SessionList (map fst (py_slice_to max_sessions ranked))),
      fresh := Suc (Suc (fresh \<sigma>))\<rparr>"
  have run: "select_in_store self_sessions max_sessions prioritize_errors min_duration \<sigma>
      = Some (Suc (fresh \<sigma>), \<sigma>')"
    unfolding \<sigma>'_def by (rule select_in_store_result[OF assms kept_def ranked_def])
  have frame: "\<forall>a. a < fresh \<sigma> \<longrightarrow> cells \<sigma>' a = cells \<sigma> a"
    by (simp add: \<sigma>'_def)
  from assms(1,2) have "self_sessions < fresh \<sigma>" by (rule get_list_lt)
  with assms(2) frame have l: "get_list \<sigma>' self_sessions = Some refs"
    by (simp add: get_list_def)
  from deref_all_Some[OF assms(3)]
  have refs: "map fst objs = refs"
    and objs: "\<forall>rs\<in>set objs. get_session \<sigma> (fst rs) = Some (snd rs)"
    by simp_all
  have objs': "\<forall>rs\<in>set objs. get_session \<sigma>' (fst rs) = Some (snd rs)"
  proof
    fix rs assume "rs \<in> set objs"
    with objs have g: "get_session \<sigma> (fst rs) = Some (snd rs)" by simp
    with assms(1) have "fst rs < fresh \<sigma>" by (rule get_session_lt)
    with g frame show "get_session \<sigma>' (fst rs) = Some (snd rs)" by (simp add: get_session_def)
  qed
  then have d: "deref_all \<sigma>' refs = Some objs"
    using deref_all_pairs[of objs \<sigma>'] refs by simp
  have "set (py_slice_to max_sessions ranked) \<subseteq> set objs"
    using set_py_slice_to[of max_sessions ranked]
    by (auto simp: ranked_def kept_def set_py_sort_reverse)
  with objs' have "\<forall>rs\<in>set (py_slice_to max_sessions ranked).
      get_session \<sigma>' (fst rs) = Some (snd rs)"
    by blast
  then have "deref_all \<sigma>' (map fst (py_slice_to max_sessions ranked))
      = Some (py_slice_to max_sessions ranked)"
    by (rule deref_all_pairs)
  moreover have "get_list \<sigma>' (Suc (fresh \<sigma>)) = Some (map fst (py_slice_to max_sessions ranked))"
    by (simp add: \<sigma>'_def get_list_def)
  ultimately have sel: "Option.bind (get_list \<sigma>' (Suc (fresh \<sigma>))) (deref_all \<sigma>')
      = Some (py_slice_to max_sessions ranked)"
    by simp
  have k: "map snd kept = filter (\<lambda>s. duration s \<ge> min_duration) (map snd objs)"
    by (simp add: kept_def filter_map comp_def)
  have "map snd ranked =
     (if prioritize_errors
      then py_sort_reverse (\<lambda>s. (length (errors s), duration s)) (map snd kept)
      else py_sort_reverse (\<lambda>s. duration s) (map snd kept))"
    using map_py_sort_reverse[where g = snd and f = "\<lambda>s. (length (errors s), duration s)"
        and xs = kept]
      map_py_sort_reverse[where g = snd and f = duration and xs = kept]
    by (simp add: ranked_def)
  with k have same: "map snd (py_slice_to max_sessions ranked) =
      select_sessions_for_testing \<lparr>sessions = map snd objs\<rparr>
        max_sessions prioritize_errors min_duration"
    by (simp add: select_sessions_for_testing_def map_py_slice_to)
  from assms(1) have v: "valid_store \<sigma>'"
    by (simp add: valid_store_def \<sigma>'_def)
  from run frame l d sel same v show ?thesis by blast
qed

theorem select_leaves_state_witness:
  "valid_store five_store
   \<and> get_list five_store 5 = Some [0, 1, 2, 3, 4]
   \<and> (\<exists>result \<sigma>' selected.
        select_in_store 5 3 True 1000 five_store = Some (result, \<sigma>')
      \<and> get_list \<sigma>' 5 = Some [0, 1, 2, 3, 4]
      \<and> map (cells \<sigma>') [0, 1, 2, 3, 4, 5] = map (cells five_store) [0, 1, 2, 3, 4, 5]
      \<and> Option.bind (get_list \<sigma>' result) (deref_all \<sigma>') = Some selected
      \<and> map (\<lambda>rs. replay_id (snd rs)) selected = [''b'', ''d'', ''c''])"
proof -
  let ?objs = "[(0, mk_session ''a'' 500 0), (1, mk_session ''b'' 2000 2),
      (2, mk_session ''c'' 1500 2), (3, mk_session ''d'' 2000 2),
      (4::nat, mk_session ''e'' 3000 0)]"
  have v: "valid_store five_store"
    by (simp add: valid_store_def five_store_def store_of_def)
  have l: "get_list five_store 5 = Some [0, 1, 2, 3, 4]"
    by (simp add: get_list_def five_store_def store_of_def)
  have d: "deref_all five_store [0, 1, 2, 3, 4] = Some ?objs"
    by (simp add: deref_all_def get_session_def five_store_def store_of_def)
  have f: "fresh five_store = 6" by (simp add: five_store_def store_of_def)
  from select_leaves_state[OF v l d, of 3 True 1000]
  obtain result \<sigma>' selected where r:
    "select_in_store 5 3 True 1000 five_store = Some (result, \<sigma>')"
    "\<forall>a. a < fresh five_store \<longrightarrow> cells \<sigma>' a = cells five_store a"
    "get_list \<sigma>' 5 = Some [0, 1, 2, 3, 4]"
    "Option.bind (get_list \<sigma>' result) (deref_all \<sigma>') = Some selected"
    "map snd selected =
       select_sessions_for_testing \<lparr>sessions = map snd ?objs\<rparr> 3 True 1000"
    by blast
  from r(2) f have c: "map (cells \<sigma>') [0, 1, 2, 3, 4, 5] = map (cells five_store) [0, 1, 2, 3, 4, 5]"
    by simp
  have "map replay_id (select_sessions_for_testing \<lparr>sessions = map snd ?objs\<rparr> 3 True 1000)
      = [''b'', ''d'', ''c'']"
    by (simp add: select_defs mk_session_def)
  with r(5) have "map replay_id (map snd selected) = [''b'', ''d'', ''c'']" by simp
  then have s: "map (\<lambda>rs. replay_id (snd rs)) selected = [''b'', ''d'', ''c'']"
    by (simp add: comp_def)
  from r(1) r(3) c r(4) s have "\<exists>result \<sigma>' selected.
        select_in_store 5 3 True 1000 five_store = Some (result, \<sigma>')
      \<and> get_list \<sigma>' 5 = Some [0, 1, 2, 3, 4]
      \<and> map (cells \<sigma>') [0, 1, 2, 3, 4, 5] = map (cells five_store) [0, 1, 2, 3, 4, 5]
      \<and> Option.bind (get_list \<sigma>' result) (deref_all \<sigma>') = Some selected
      \<and> map (\<lambda>rs. replay_id (snd rs)) selected = [''b'', ''d'', ''c'']"
    by (intro exI[of _ result] exI[of _ \<sigma>'] exI[of _ selected] conjI)
  with v l show ?thesis by (intro conjI)
qed

lemma get_session_put:
  "get_session (put_obj a (StrList ls) \<sigma>) b = (if b = a then None else get_session \<sigma> b)"
  by (simp add: get_session_def put_obj_def)

lemma get_lines_put: "get_lines (put_obj a (StrList ls) \<sigma>) a = Some ls"
  by (simp add: get_lines_def put_obj_def)

lemma put_put: "put_obj a x (put_obj a y \<sigma>) = put_obj a x \<sigma>"
  by (simp add: put_obj_def)

lemma put_same: "get_lines \<sigma> a = Some ls \<Longrightarrow> put_obj a (StrList ls) \<sigma> = \<sigma>"
proof -
  assume "get_lines \<sigma> a = Some ls"
  then have "cells \<sigma> a = Some (StrList ls)"
    by (auto simp: get_lines_def split: option.splits obj.splits)
  then have "(cells \<sigma>)(a \<mapsto> StrList ls) = cells \<sigma>" by (rule fun_upd_idem)
  then show ?thesis by (simp add: put_obj_def)
qed

lemma render_actions_in_store_result:
  "get_lines \<sigma> l = Some ls \<Longrightarrow>
   render_actions_in_store as l \<sigma> = Some (put_obj l (StrList (render_actions as ls)) \<sigma>)"
proof (induction as arbitrary: \<sigma> ls)
  case Nil
  then show ?case by (simp add: put_same)
next
  case (Cons a as)
  let ?\<sigma> = "put_obj l (StrList (render_action a ls)) \<sigma>"
  have "get_lines ?\<sigma> l = Some (render_action a ls)" by (rule get_lines_put)
  from Cons.IH[OF this] Cons.prems show ?case by (simp add: put_put)
qed

lemma append_in_store_result:
  "append_in_store l x (put_obj l (StrList ls) \<sigma>) = Some (put_obj l (StrList (ls @ [x])) \<sigma>)"
  by (simp add: append_in_store_def get_lines_put put_put)

lemma to_test_script_in_store_result:
  assumes v: "valid_store \<sigma>" and s: "get_session \<sigma> self = Some s"
  shows "to_test_script_in_store self \<sigma> =
     Some (to_test_script s,
           \<sigma>\<lparr>cells := (cells \<sigma>)(fresh \<sigma> \<mapsto> StrList (script_lines_of s)),
             fresh := Suc (fresh \<sigma>)\<rparr>)"
proof -
  let ?l = "fresh \<sigma>"
  let ?\<sigma>0 = "\<sigma>\<lparr>fresh := Suc (fresh \<sigma>)\<rparr>"
  from v s have "self < ?l" by (rule get_session_lt)
  then have ne: "self \<noteq> ?l" by simp
  have n: "new_obj (StrList (initial_lines s)) \<sigma> = (?l, put_obj ?l (StrList (initial_lines s)) ?\<sigma>0)"
    by (simp add: new_obj_def put_obj_def)
  have g: "get_session (put_obj ?l (StrList ls) ?\<sigma>0) self = Some s" for ls
    using s ne by (simp add: get_session_put) (simp add: get_session_def)
  have r: "render_actions_in_store (actions s) ?l (put_obj ?l (StrList (initial_lines s)) ?\<sigma>0)
      = Some (put_obj ?l (StrList (render_actions (actions s) (initial_lines s))) ?\<sigma>0)"
    using render_actions_in_store_result[OF get_lines_put, of "actions s" ?l "initial_lines s" ?\<sigma>0]
    by (simp add: put_put)
  have e: "put_obj ?l (StrList (script_lines_of s)) ?\<sigma>0 =
      \<sigma>\<lparr>cells := (cells \<sigma>)(fresh \<sigma> \<mapsto> StrList (script_lines_of s)), fresh := Suc (fresh \<sigma>)\<rparr>"
    by (simp add: put_obj_def)
  have "to_test_script_in_store self \<sigma> =
      Some (py_join ''\<newline>'' (script_lines_of s), put_obj ?l (StrList (script_lines_of s)) ?\<sigma>0)"
    unfolding to_test_script_in_store_def
    by (simp only: s Option.bind.simps n Let_def prod.case g r append_in_store_result
        get_lines_put script_lines_of_def append_assoc)
  then show ?thesis by (simp only: e to_test_script_def)
qed

text \<open>
  C3. Rendering is a function of the session value alone and has no effect on what
  existed: on any two stores, for any two session objects with equal values, the
  rendered strings are equal, and equal to the string of the rendering on values; no
  object that existed before a call is changed by it (the only object written is the
  list \<^verbatim>\<open>script_lines\<close> the call itself allocates); a second call on the same object
  gives the same string again.
\<close>

theorem to_test_script_deterministic:
  assumes "valid_store \<sigma>1" and "valid_store \<sigma>2"
    and "get_session \<sigma>1 a1 = Some s" and "get_session \<sigma>2 a2 = Some s"
  shows "\<exists>out \<tau>1 \<tau>2 \<tau>1'.
      to_test_script_in_store a1 \<sigma>1 = Some (out, \<tau>1)
    \<and> to_test_script_in_store a2 \<sigma>2 = Some (out, \<tau>2)
    \<and> to_test_script_in_store a1 \<tau>1 = Some (out, \<tau>1')
    \<and> out = to_test_script s
    \<and> (\<forall>a. a < fresh \<sigma>1 \<longrightarrow> cells \<tau>1 a = cells \<sigma>1 a)
    \<and> (\<forall>a. a < fresh \<sigma>2 \<longrightarrow> cells \<tau>2 a = cells \<sigma>2 a)
    \<and> (\<forall>a. a < fresh \<tau>1 \<longrightarrow> cells \<tau>1' a = cells \<tau>1 a)
    \<and> get_session \<tau>1 a1 = Some s
    \<and> get_session \<tau>2 a2 = Some s"
proof -
  define \<tau>1 where "\<tau>1 = \<sigma>1\<lparr>cells := (cells \<sigma>1)(fresh \<sigma>1 \<mapsto> StrList (script_lines_of s)),
      fresh := Suc (fresh \<sigma>1)\<rparr>"
  define \<tau>2 where "\<tau>2 = \<sigma>2\<lparr>cells := (cells \<sigma>2)(fresh \<sigma>2 \<mapsto> StrList (script_lines_of s)),
      fresh := Suc (fresh \<sigma>2)\<rparr>"
  define \<tau>1' where "\<tau>1' = \<tau>1\<lparr>cells := (cells \<tau>1)(fresh \<tau>1 \<mapsto> StrList (script_lines_of s)),
      fresh := Suc (fresh \<tau>1)\<rparr>"
  have r1: "to_test_script_in_store a1 \<sigma>1 = Some (to_test_script s, \<tau>1)"
    unfolding \<tau>1_def by (rule to_test_script_in_store_result[OF assms(1,3)])
  have r2: "to_test_script_in_store a2 \<sigma>2 = Some (to_test_script s, \<tau>2)"
    unfolding \<tau>2_def by (rule to_test_script_in_store_result[OF assms(2,4)])
  from assms(1,3) have lt1: "a1 < fresh \<sigma>1" by (rule get_session_lt)
  from assms(2,4) have lt2: "a2 < fresh \<sigma>2" by (rule get_session_lt)
  have f1: "\<forall>a. a < fresh \<sigma>1 \<longrightarrow> cells \<tau>1 a = cells \<sigma>1 a" by (simp add: \<tau>1_def)
  have f2: "\<forall>a. a < fresh \<sigma>2 \<longrightarrow> cells \<tau>2 a = cells \<sigma>2 a" by (simp add: \<tau>2_def)
  have f3: "\<forall>a. a < fresh \<tau>1 \<longrightarrow> cells \<tau>1' a = cells \<tau>1 a" by (simp add: \<tau>1'_def)
  from assms(3) lt1 f1 have g1: "get_session \<tau>1 a1 = Some s" by (simp add: get_session_def)
  from assms(4) lt2 f2 have g2: "get_session \<tau>2 a2 = Some s" by (simp add: get_session_def)
  from assms(1) have v1: "valid_store \<tau>1" by (simp add: valid_store_def \<tau>1_def)
  have r3: "to_test_script_in_store a1 \<tau>1 = Some (to_test_script s, \<tau>1')"
    unfolding \<tau>1'_def by (rule to_test_script_in_store_result[OF v1 g1])
  from r1 r2 r3 f1 f2 f3 g1 g2 show ?thesis by blast
qed

theorem to_test_script_deterministic_witness:
  "valid_store render_store
   \<and> get_session render_store 0 = Some null_click_session
   \<and> get_session render_store 1 = Some null_click_session
   \<and> (\<exists>out \<tau>1 \<tau>2.
        to_test_script_in_store 0 render_store = Some (out, \<tau>1)
      \<and> to_test_script_in_store 1 render_store = Some (out, \<tau>2)
      \<and> out = to_test_script null_click_session
      \<and> map (cells \<tau>1) [0, 1] = map (cells render_store) [0, 1]
      \<and> map (cells \<tau>2) [0, 1] = map (cells render_store) [0, 1])"
proof -
  have v: "valid_store render_store"
    by (simp add: valid_store_def render_store_def store_of_def)
  have g0: "get_session render_store 0 = Some null_click_session"
    by (simp add: get_session_def render_store_def store_of_def)
  have g1: "get_session render_store 1 = Some null_click_session"
    by (simp add: get_session_def render_store_def store_of_def)
  have f: "fresh render_store = 2" by (simp add: render_store_def store_of_def)
  from to_test_script_deterministic[OF v v g0 g1]
  obtain out \<tau>1 \<tau>2 where r:
    "to_test_script_in_store 0 render_store = Some (out, \<tau>1)"
    "to_test_script_in_store 1 render_store = Some (out, \<tau>2)"
    "out = to_test_script null_click_session"
    "\<forall>a. a < fresh render_store \<longrightarrow> cells \<tau>1 a = cells render_store a"
    "\<forall>a. a < fresh render_store \<longrightarrow> cells \<tau>2 a = cells render_store a"
    by blast
  from r(4) f have c1: "map (cells \<tau>1) [0, 1] = map (cells render_store) [0, 1]" by simp
  from r(5) f have c2: "map (cells \<tau>2) [0, 1] = map (cells render_store) [0, 1]" by simp
  from r(1) r(2) r(3) c1 c2 have "\<exists>out \<tau>1 \<tau>2.
        to_test_script_in_store 0 render_store = Some (out, \<tau>1)
      \<and> to_test_script_in_store 1 render_store = Some (out, \<tau>2)
      \<and> out = to_test_script null_click_session
      \<and> map (cells \<tau>1) [0, 1] = map (cells render_store) [0, 1]
      \<and> map (cells \<tau>2) [0, 1] = map (cells render_store) [0, 1]"
    by (intro exI[of _ out] exI[of _ \<tau>1] exI[of _ \<tau>2] conjI)
  with v g0 g1 show ?thesis by (intro conjI)
qed

end
